theory Spec2Isabelle
  imports Complex_Main "HOL-Library.Sublist" "HOL-Library.Log_Nat" "HOL-Library.Multiset"
begin

section \<open>Python strings\<close>

text \<open>
  A Python \<open>str\<close> is a sequence of code points. The model keeps the code points below 256
  (Latin-1), one \<open>char\<close> each, which covers every keyword of the source
  (\<open>ubicaci\'on\<close>, \<open>categor\'ia\<close>) and is closed under \<open>lower\<close> and \<open>strip\<close>.
\<close>

definition ord :: "char \<Rightarrow> nat" where
  "ord c = of_char c"

text \<open>\<open>\d\<close> of module \<open>re\<close> on a \<open>str\<close>: the decimal digits; below 256 these are 0 to 9.\<close>

definition is_digit :: "char \<Rightarrow> bool" where
  "is_digit c = (48 \<le> ord c \<and> ord c \<le> 57)"

text \<open>\<open>\s\<close> and the characters \<open>str.strip()\<close> removes: the Unicode white space below 256.\<close>

definition is_space :: "char \<Rightarrow> bool" where
  "is_space c = ((9 \<le> ord c \<and> ord c \<le> 13) \<or> (28 \<le> ord c \<and> ord c \<le> 32)
                 \<or> ord c = 133 \<or> ord c = 160)"

definition lower_char :: "char \<Rightarrow> char" where
  "lower_char c = (if (65 \<le> ord c \<and> ord c \<le> 90) \<or> (192 \<le> ord c \<and> ord c \<le> 222 \<and> ord c \<noteq> 215)
                   then char_of (ord c + 32) else c)"

definition lower :: "string \<Rightarrow> string" where
  "lower s = map lower_char s"

definition strip :: "string \<Rightarrow> string" where
  "strip s = rev (dropWhile is_space (rev (dropWhile is_space s)))"

text \<open>\<open>kw in s\<close> on strings: \<open>kw\<close> occurs in \<open>s\<close> as a contiguous substring.\<close>

fun str_in :: "string \<Rightarrow> string \<Rightarrow> bool" where
  "str_in kw [] = (kw = [])"
| "str_in kw (c # cs) = (prefix kw (c # cs) \<or> str_in kw cs)"

text \<open>\<open>' '.join(parts)\<close>.\<close>

fun join_sp :: "string list \<Rightarrow> string" where
  "join_sp [] = []"
| "join_sp [p] = p"
| "join_sp (p # q # ps) = p @ '' '' @ join_sp (q # ps)"

text \<open>\<open>any(kw in text for kw in kws)\<close>.\<close>

definition any_kw_in :: "string list \<Rightarrow> string \<Rightarrow> bool" where
  "any_kw_in kws text = list_ex (\<lambda>kw. str_in kw text) kws"

section \<open>Regular expressions of module re\<close>

text \<open>
  The fragment of the pattern language the source uses: literal text, a character class
  repeated between \<open>lo\<close> and \<open>hi\<close> times (greedy; \<open>None\<close> is no upper bound), sequence,
  ordered alternation, the greedy optional \<open>r?\<close> and a capturing group. Matching is the
  backtracking search of \<open>re\<close>: the matcher takes the continuation that has to accept the
  rest of the subject, and a repetition, an alternation or an optional hands the
  continuation its choices in the order \<open>re\<close> tries them. The groups of the patterns below
  are not nested and all take part in a match, so the list of captured texts, in
  closing order, is \<open>match.groups()\<close>.
\<close>

datatype rx =
    Lit string
  | Cls "char \<Rightarrow> bool" nat "nat option"
  | Seq rx rx
  | Alt rx rx
  | Opt rx
  | Grp rx

type_synonym caps = "string list"

text \<open>Greedy repetition: try \<open>n\<close> repetitions, then \<open>n - 1\<close>, down to \<open>lo\<close>.\<close>

fun try_down :: "nat \<Rightarrow> nat \<Rightarrow> (nat \<Rightarrow> 'a option) \<Rightarrow> 'a option" where
  "try_down lo 0 k = (if lo = 0 then k 0 else None)"
| "try_down lo (Suc n) k =
     (if Suc n < lo then None
      else case k (Suc n) of Some r \<Rightarrow> Some r | None \<Rightarrow> try_down lo n k)"

fun rx_match :: "rx \<Rightarrow> string \<Rightarrow> caps \<Rightarrow> (string \<Rightarrow> caps \<Rightarrow> caps option) \<Rightarrow> caps option" where
  "rx_match (Lit t) s g k = (if prefix t s then k (drop (length t) s) g else None)"
| "rx_match (Cls p lo hi) s g k =
     (let avail = length (takeWhile p s);
          n = (case hi of None \<Rightarrow> avail | Some h \<Rightarrow> min h avail)
      in try_down lo n (\<lambda>i. k (drop i s) g))"
| "rx_match (Seq a b) s g k = rx_match a s g (\<lambda>s' g'. rx_match b s' g' k)"
| "rx_match (Alt a b) s g k =
     (case rx_match a s g k of Some r \<Rightarrow> Some r | None \<Rightarrow> rx_match b s g k)"
| "rx_match (Opt a) s g k =
     (case rx_match a s g k of Some r \<Rightarrow> Some r | None \<Rightarrow> k s g)"
| "rx_match (Grp a) s g k =
     rx_match a s g (\<lambda>s' g'. k s' (g' @ [take (length s - length s') s]))"

text \<open>\<open>re.search\<close>: the match at the leftmost start position that has one.\<close>

fun re_search :: "rx \<Rightarrow> string \<Rightarrow> caps option" where
  "re_search r [] = rx_match r [] [] (\<lambda>s g. Some g)"
| "re_search r (c # cs) =
     (case rx_match r (c # cs) [] (\<lambda>s g. Some g) of
        Some g \<Rightarrow> Some g
      | None \<Rightarrow> re_search r cs)"

text \<open>\<open>re.sub(cls, '', s)\<close> for a pattern that is one character class: every character of
  the class is deleted.\<close>

definition re_sub_cls :: "(char \<Rightarrow> bool) \<Rightarrow> string \<Rightarrow> string" where
  "re_sub_cls p s = filter (\<lambda>c. \<not> p c) s"

fun seqs :: "rx list \<Rightarrow> rx" where
  "seqs [] = Lit []"
| "seqs [r] = r"
| "seqs (r # q # rs) = Seq r (seqs (q # rs))"

section \<open>Python floats\<close>

text \<open>
  A float is a binary64 value: a finite number, given by its exact rational value, an
  infinity or NaN (the two zeros are one value here). \<open>round_double\<close> is the correctly
  rounded conversion of an exact value (round to nearest, ties to even, 53 significant
  bits, least exponent \<open>-1074\<close>, overflow to infinity from \<open>2^1024 - 2^970\<close> on), which
  is what \<open>float(str)\<close> computes and what every arithmetic operation applies to its
  exact result.
\<close>

datatype pyfloat = Fin rat | PInf | NInf | NaN

definition pow2 :: "int \<Rightarrow> rat" where
  "pow2 e = (if 0 \<le> e then 2 ^ nat e else 1 / 2 ^ nat (- e))"

definition round_half_even :: "'a::floor_ceiling \<Rightarrow> int" where
  "round_half_even x =
     (let f = \<lfloor>x\<rfloor>; d = x - of_int f
      in if d < 1 / 2 then f else if 1 / 2 < d then f + 1 else if even f then f else f + 1)"

text \<open>\<open>ilog2 a\<close> is the integer part of the binary logarithm of a positive rational.\<close>

definition ilog2 :: "rat \<Rightarrow> int" where
  "ilog2 a =
     (let (p, q) = quotient_of a;
          k = int (floorlog 2 (nat p)) - int (floorlog 2 (nat q))
      in if pow2 k \<le> a then k else k - 1)"

definition round_double :: "rat \<Rightarrow> pyfloat" where
  "round_double v =
     (if v = 0 then Fin 0
      else let a = \<bar>v\<bar>;
               e = max (ilog2 a - 52) (- 1074);
               r = of_int (round_half_even (a / pow2 e)) * pow2 e
           in if 2 ^ 1024 \<le> r then (if 0 < v then PInf else NInf)
              else Fin (if 0 < v then r else - r))"

definition digit_val :: "char \<Rightarrow> nat" where
  "digit_val c = ord c - 48"

definition dec_val :: "string \<Rightarrow> nat" where
  "dec_val s = foldl (\<lambda>a c. 10 * a + digit_val c) 0 s"

definition all_digits :: "string \<Rightarrow> bool" where
  "all_digits s = (s \<noteq> [] \<and> list_all is_digit s)"

text \<open>
  \<open>float(s)\<close> for the numerals \<open>[+-]digits[.digits]\<close>; \<open>None\<close> is ValueError. The other
  spellings \<open>float\<close> accepts (exponents, \<open>inf\<close>, \<open>nan\<close>, underscores, surrounding blanks,
  a missing integer or fraction part) are outside this model: they contain a character
  that is neither a digit, a sign nor a dot, or have an empty digit run.
\<close>

definition unsigned_val :: "string \<Rightarrow> rat option" where
  "unsigned_val s =
     (let ip = takeWhile (\<lambda>c. c \<noteq> CHR ''.'') s; rest = dropWhile (\<lambda>c. c \<noteq> CHR ''.'') s
      in if \<not> all_digits ip then None
         else if rest = [] then Some (of_nat (dec_val ip))
         else if all_digits (tl rest)
              then Some (of_nat (dec_val ip) + of_nat (dec_val (tl rest)) / 10 ^ length (tl rest))
              else None)"

definition py_float :: "string \<Rightarrow> pyfloat option" where
  "py_float s =
     (case s of
        [] \<Rightarrow> None
      | c # cs \<Rightarrow>
          if c = CHR ''-'' then map_option (\<lambda>v. round_double (- v)) (unsigned_val cs)
          else if c = CHR ''+'' then map_option round_double (unsigned_val cs)
          else map_option round_double (unsigned_val s))"

text \<open>Truth value of a float in \<open>if precio:\<close>: zero is false (and so is \<open>None\<close>).\<close>

fun truthy :: "pyfloat \<Rightarrow> bool" where
  "truthy (Fin q) = (q \<noteq> 0)"
| "truthy PInf = True"
| "truthy NInf = True"
| "truthy NaN = True"

fun nonneg :: "pyfloat \<Rightarrow> bool" where
  "nonneg (Fin q) = (0 \<le> q)"
| "nonneg PInf = True"
| "nonneg NInf = False"
| "nonneg NaN = False"

fun positive :: "pyfloat \<Rightarrow> bool" where
  "positive (Fin q) = (0 < q)"
| "positive PInf = True"
| "positive NInf = False"
| "positive NaN = False"

fun finite_float :: "pyfloat \<Rightarrow> bool" where
  "finite_float (Fin q) = True"
| "finite_float PInf = False"
| "finite_float NInf = False"
| "finite_float NaN = False"

text \<open>
  The arithmetic of binary64: the exact result of two finite operands is rounded, and
  the infinities and NaN follow IEEE 754.
\<close>

fun fneg :: "pyfloat \<Rightarrow> pyfloat" where
  "fneg (Fin a) = Fin (- a)"
| "fneg PInf = NInf"
| "fneg NInf = PInf"
| "fneg NaN = NaN"

fun fadd :: "pyfloat \<Rightarrow> pyfloat \<Rightarrow> pyfloat" where
  "fadd (Fin a) (Fin b) = round_double (a + b)"
| "fadd NaN y = NaN"
| "fadd x NaN = NaN"
| "fadd PInf NInf = NaN"
| "fadd NInf PInf = NaN"
| "fadd PInf y = PInf"
| "fadd x PInf = PInf"
| "fadd NInf y = NInf"
| "fadd x NInf = NInf"

definition fsub :: "pyfloat \<Rightarrow> pyfloat \<Rightarrow> pyfloat" where
  "fsub x y = fadd x (fneg y)"

fun fmul :: "pyfloat \<Rightarrow> pyfloat \<Rightarrow> pyfloat" where
  "fmul (Fin a) (Fin b) = round_double (a * b)"
| "fmul NaN y = NaN"
| "fmul x NaN = NaN"
| "fmul (Fin a) y = (if a = 0 then NaN else if 0 < a then y else fneg y)"
| "fmul x (Fin b) = (if b = 0 then NaN else if 0 < b then x else fneg x)"
| "fmul PInf y = y"
| "fmul NInf y = fneg y"

fun fdiv :: "pyfloat \<Rightarrow> pyfloat \<Rightarrow> pyfloat" where
  "fdiv (Fin a) (Fin b) =
     (if b = 0 then (if a = 0 then NaN else if 0 < a then PInf else NInf)
      else round_double (a / b))"
| "fdiv NaN y = NaN"
| "fdiv x NaN = NaN"
| "fdiv (Fin a) y = Fin 0"
| "fdiv x (Fin b) = (if 0 \<le> b then x else fneg x)"
| "fdiv x y = NaN"

text \<open>\<open>rint\<close>: the nearest integer, ties to even.\<close>

fun rint :: "pyfloat \<Rightarrow> pyfloat" where
  "rint (Fin a) = Fin (of_int (round_half_even a))"
| "rint x = x"

text \<open>
  The order in which floats are sorted: minus infinity, the finite numbers, plus
  infinity, and NaN last.
\<close>

fun ford :: "pyfloat \<Rightarrow> nat" where
  "ford NInf = 0"
| "ford (Fin a) = 1"
| "ford PInf = 2"
| "ford NaN = 3"

fun fval :: "pyfloat \<Rightarrow> rat" where
  "fval (Fin a) = a"
| "fval x = 0"

instantiation pyfloat :: linorder
begin

definition less_eq_pyfloat :: "pyfloat \<Rightarrow> pyfloat \<Rightarrow> bool" where
  "less_eq_pyfloat x y = (ford x < ford y \<or> (ford x = ford y \<and> fval x \<le> fval y))"

definition less_pyfloat :: "pyfloat \<Rightarrow> pyfloat \<Rightarrow> bool" where
  "less_pyfloat x y = (ford x < ford y \<or> (ford x = ford y \<and> fval x < fval y))"

instance
proof
  fix x y z :: pyfloat
  show "(x < y) = (x \<le> y \<and> \<not> y \<le> x)"
    by (auto simp: less_eq_pyfloat_def less_pyfloat_def)
  show "x \<le> x" by (simp add: less_eq_pyfloat_def)
  show "x \<le> y \<Longrightarrow> y \<le> z \<Longrightarrow> x \<le> z"
    by (auto simp: less_eq_pyfloat_def)
  show "x \<le> y \<Longrightarrow> y \<le> x \<Longrightarrow> x = y"
    by (cases x; cases y) (auto simp: less_eq_pyfloat_def)
  show "x \<le> y \<or> y \<le> x"
    by (auto simp: less_eq_pyfloat_def)
qed

end

section \<open>The price cleaner\<close>

text \<open>A table cell as pdfplumber delivers it: a string, or \<open>None\<close> for a missing cell.\<close>

type_synonym cell = "string option"

text \<open>\<open>str(x)\<close> of a cell.\<close>

definition str_of :: "cell \<Rightarrow> string" where
  "str_of c = (case c of None \<Rightarrow> ''None'' | Some s \<Rightarrow> s)"

text \<open>The class \<open>[B/.\s,]\<close> that \<open>clean_price\<close> deletes.\<close>

definition strip_cls :: "char \<Rightarrow> bool" where
  "strip_cls c = (c = CHR ''B'' \<or> c = CHR ''/'' \<or> c = CHR ''.'' \<or> is_space c \<or> c = CHR '','')"

text \<open>The pattern \<open>(\d+(?:\.\d+)?)\<close>.\<close>

definition price_rx :: rx where
  "price_rx = Grp (Seq (Cls is_digit 1 None) (Opt (Seq (Lit ''.'') (Cls is_digit 1 None))))"

definition clean_price :: "cell \<Rightarrow> pyfloat option" where
  "clean_price price_str =
     (case price_str of
        None \<Rightarrow> None
      | Some s \<Rightarrow>
          if s = [] then None
          else let t = re_sub_cls strip_cls s
               in case re_search price_rx t of
                    Some (m # _) \<Rightarrow> py_float m
                  | _ \<Rightarrow> None)"

text \<open>The first run of digits of the cleaned cell (empty when it has no digit).\<close>

definition digit_run :: "string \<Rightarrow> string" where
  "digit_run s = takeWhile is_digit (dropWhile (\<lambda>c. \<not> is_digit c) (re_sub_cls strip_cls s))"

text \<open>A cell of 309 nines, a numeral above the largest finite float.\<close>

definition nines :: string where
  "nines = replicate 309 CHR ''9''"

section \<open>Tables\<close>

text \<open>
  A DataFrame as \<open>extract_tables_from_pdf\<close> builds it, \<open>pd.DataFrame(table[1:],
  columns=table[0])\<close>: the column labels and the rows of cells. The constructor pads a
  row shorter than the header with \<open>None\<close>, which \<open>cell_at\<close> does on reading. Access by
  label, \<open>row[col]\<close>, is a single cell when the label occurs once and a Series of the
  cells under that label when it is repeated.
\<close>

datatype py_error = IndexError | KeyError | ValueError

datatype pyvalue = Scalar cell | Series "cell list"

record dataframe =
  columns :: "string list"
  rows :: "cell list list"

text \<open>\<open>df.empty\<close>: one of the two axes has length 0.\<close>

definition df_empty :: "dataframe \<Rightarrow> bool" where
  "df_empty df = (columns df = [] \<or> rows df = [])"

definition cell_at :: "cell list \<Rightarrow> nat \<Rightarrow> cell" where
  "cell_at row i = (if i < length row then row ! i else None)"

text \<open>\<open>row.iloc[i]\<close>: IndexError beyond the number of columns.\<close>

definition iloc :: "dataframe \<Rightarrow> cell list \<Rightarrow> nat \<Rightarrow> py_error + cell" where
  "iloc df row i = (if i < length (columns df) then Inr (cell_at row i) else Inl IndexError)"

text \<open>The positions of the columns that carry the label \<open>col\<close>.\<close>

definition positions :: "string \<Rightarrow> string list \<Rightarrow> nat list" where
  "positions col cols = filter (\<lambda>i. cols ! i = col) [0 ..< length cols]"

text \<open>\<open>row[col]\<close>: KeyError for a label that is no column.\<close>

definition loc :: "dataframe \<Rightarrow> cell list \<Rightarrow> string \<Rightarrow> py_error + pyvalue" where
  "loc df row col =
     (case positions col (columns df) of
        [] \<Rightarrow> Inl KeyError
      | [i] \<Rightarrow> Inr (Scalar (cell_at row i))
      | i # j # ps \<Rightarrow> Inr (Series (map (cell_at row) (i # j # ps))))"

text \<open>
  \<open>str(row[col])\<close>. The text pandas prints for a Series (its labels and values, the
  index of the row as its name, its dtype) is not modelled: the normalizers take it as
  the parameter \<open>sr\<close>, a function of the index of the row, the label and the cells.
\<close>

definition str_value :: "(nat \<Rightarrow> string \<Rightarrow> cell list \<Rightarrow> string) \<Rightarrow> nat \<Rightarrow> string \<Rightarrow> pyvalue \<Rightarrow> string" where
  "str_value sr idx col v = (case v of Scalar c \<Rightarrow> str_of c | Series cs \<Rightarrow> sr idx col cs)"

text \<open>
  \<open>self.clean_price(row[col])\<close>: on a Series the test \<open>pd.isna(price_str) or ...\<close> asks for
  the truth value of a Series, which raises ValueError.
\<close>

definition clean_value :: "pyvalue \<Rightarrow> py_error + pyfloat option" where
  "clean_value v = (case v of Scalar c \<Rightarrow> Inr (clean_price c) | Series cs \<Rightarrow> Inl ValueError)"

text \<open>The labels \<open>identify_table_type\<close> returns: "unknown", "por_lugar", "por_categoria",
  "general".\<close>

datatype table_type = Unknown | Por_lugar | Por_categoria | General

definition keywords_lugar :: "string list" where
  "keywords_lugar = [''lugar'', ''feria'', ''mercado'', ''ubicaci'' @ [CHR 0xF3] @ ''n'', ''sitio'']"

definition keywords_categoria :: "string list" where
  "keywords_categoria = [''categor'' @ [CHR 0xED] @ ''a'', ''categoria'', ''tipo'', ''clase'']"

definition keywords_precio :: "string list" where
  "keywords_precio = [''precio'', ''valor'', ''monto'', ''b/'', ''$'']"

text \<open>\<open>str(df.iloc[0, 0]).lower()\<close> of a frame that is not empty.\<close>

definition first_cell :: "dataframe \<Rightarrow> string" where
  "first_cell df = (case rows df of [] \<Rightarrow> [] | r # _ \<Rightarrow> lower (str_of (cell_at r 0)))"

definition identify_table_type :: "dataframe \<Rightarrow> table_type" where
  "identify_table_type df =
     (if df_empty df then Unknown
      else let cols_lower = map lower (columns df);
               first_col = first_cell df;
               has_lugar = any_kw_in keywords_lugar (join_sp (cols_lower @ [first_col]));
               has_categoria = any_kw_in keywords_categoria (join_sp (cols_lower @ [first_col]));
               has_precio = any_kw_in keywords_precio (join_sp cols_lower)
           in if has_lugar \<and> has_precio then Por_lugar
              else if has_categoria \<and> has_precio then Por_categoria
              else General)"

text \<open>
  The texts the classifier searches: the lowercased headers joined by blanks, and the
  same with the lowercased first cell of the first data row appended.
\<close>

definition header_text :: "dataframe \<Rightarrow> string" where
  "header_text df = join_sp (map lower (columns df))"

definition combined_text :: "dataframe \<Rightarrow> string" where
  "combined_text df = join_sp (map lower (columns df) @ [first_cell df])"

text \<open>
  The classifier as the specification words it: all three keyword tests on the combined
  text of the headers and the first cell.
\<close>

definition classifier_spec :: "dataframe \<Rightarrow> table_type" where
  "classifier_spec df =
     (if any_kw_in keywords_lugar (combined_text df) \<and> any_kw_in keywords_precio (combined_text df)
      then Por_lugar
      else if any_kw_in keywords_categoria (combined_text df)
              \<and> any_kw_in keywords_precio (combined_text df)
      then Por_categoria
      else General)"

section \<open>Dates\<close>

record date =
  year :: nat
  month :: nat
  day :: nat

definition is_leap :: "nat \<Rightarrow> bool" where
  "is_leap y = (y mod 4 = 0 \<and> (y mod 100 \<noteq> 0 \<or> y mod 400 = 0))"

definition days_in_month :: "nat \<Rightarrow> nat \<Rightarrow> nat" where
  "days_in_month y m =
     (if m = 2 then (if is_leap y then 29 else 28)
      else if m = 4 \<or> m = 6 \<or> m = 9 \<or> m = 11 then 30 else 31)"

text \<open>
  \<open>datetime.strptime(f"{d}-{m}-{y}", "%d-%m-%Y")\<close>, \<open>None\<close> for ValueError: \<open>%d\<close> is one or
  two digits giving 1 to 31, \<open>%m\<close> one or two digits giving 1 to 12, \<open>%Y\<close> four digits,
  and the three numbers have to be a date of the calendar (years from 1 on). The time
  of day of the result is midnight and is left out.
\<close>

definition strptime_dmY :: "string \<Rightarrow> string \<Rightarrow> string \<Rightarrow> date option" where
  "strptime_dmY d m y =
     (if all_digits d \<and> length d \<le> 2 \<and> all_digits m \<and> length m \<le> 2
         \<and> all_digits y \<and> length y = 4
         \<and> 1 \<le> dec_val d \<and> dec_val d \<le> 31 \<and> 1 \<le> dec_val m \<and> dec_val m \<le> 12
         \<and> 1 \<le> dec_val y \<and> dec_val d \<le> days_in_month (dec_val y) (dec_val m)
      then Some \<lparr>year = dec_val y, month = dec_val m, day = dec_val d\<rparr>
      else None)"

text \<open>The pattern
  \<open>(?:Del|del)?\s*(\d{1,2})-(\d{1,2})-(\d{2,4})\s*(?:al|a|-)?\s*(\d{1,2})-(\d{1,2})-(\d{2,4})\<close>.\<close>

definition filename_rx :: rx where
  "filename_rx = seqs
     [Opt (Alt (Lit ''Del'') (Lit ''del'')), Cls is_space 0 None,
      Grp (Cls is_digit 1 (Some 2)), Lit ''-'', Grp (Cls is_digit 1 (Some 2)), Lit ''-'',
      Grp (Cls is_digit 2 (Some 4)),
      Cls is_space 0 None, Opt (Alt (Lit ''al'') (Alt (Lit ''a'') (Lit ''-''))), Cls is_space 0 None,
      Grp (Cls is_digit 1 (Some 2)), Lit ''-'', Grp (Cls is_digit 1 (Some 2)), Lit ''-'',
      Grp (Cls is_digit 2 (Some 4))]"

definition expand_year :: "string \<Rightarrow> string" where
  "expand_year y = (if length y = 2 then ''20'' @ y else y)"

definition extract_date_from_filename :: "string \<Rightarrow> date option \<times> date option" where
  "extract_date_from_filename filename =
     (case re_search filename_rx filename of
        Some [day1, month1, year1, day2, month2, year2] \<Rightarrow>
          (case strptime_dmY day1 month1 (expand_year year1) of
             None \<Rightarrow> (None, None)
           | Some date_from \<Rightarrow>
               (case strptime_dmY day2 month2 (expand_year year2) of
                  None \<Rightarrow> (None, None)
                | Some date_to \<Rightarrow> (Some date_from, Some date_to)))
      | _ \<Rightarrow> (None, None))"

text \<open>The calendar: the number that two digits write, and the dates that exist.\<close>

definition two_digits :: "char \<Rightarrow> char \<Rightarrow> nat" where
  "two_digits a b = 10 * digit_val a + digit_val b"

definition valid_date :: "nat \<Rightarrow> nat \<Rightarrow> nat \<Rightarrow> bool" where
  "valid_date y m d = (1 \<le> y \<and> 1 \<le> m \<and> m \<le> 12 \<and> 1 \<le> d \<and> d \<le> days_in_month y m)"

section \<open>The table normalizer\<close>

text \<open>An entry of \<open>tables_data\<close> and a normalized record.\<close>

record item =
  pdf_path :: string
  pdf_filename :: string
  page :: nat
  table_num :: nat
  table_type :: table_type
  date_from :: "date option"
  date_to :: "date option"
  data :: dataframe

record price_record =
  fecha_desde :: "date option"
  fecha_hasta :: "date option"
  lugar :: string
  categoria :: string
  precio :: pyfloat
  fuente_pdf :: string
  tipo_tabla :: table_type

text \<open>Appending the records of the iterations of a loop; an exception ends the loop.\<close>

fun collect :: "('e + 'a list) list \<Rightarrow> 'e + 'a list" where
  "collect [] = Inr []"
| "collect (x # xs) =
     (case x of
        Inl e \<Rightarrow> Inl e
      | Inr ys \<Rightarrow> (case collect xs of Inl e \<Rightarrow> Inl e | Inr zs \<Rightarrow> Inr (ys @ zs)))"

text \<open>The first loop over the columns of \<open>_normalize_por_lugar\<close> and
  \<open>_normalize_por_categoria\<close>: the value, as a string, under the first column whose label
  has one of the keywords, in the row of index \<open>idx\<close>.\<close>

definition find_by_kw ::
  "(nat \<Rightarrow> string \<Rightarrow> cell list \<Rightarrow> string) \<Rightarrow> string list \<Rightarrow> dataframe \<Rightarrow> nat \<Rightarrow> cell list
     \<Rightarrow> py_error + string option" where
  "find_by_kw sr kws df idx row =
     (case find (\<lambda>col. any_kw_in kws (lower col)) (columns df) of
        None \<Rightarrow> Inr None
      | Some col \<Rightarrow>
          (case loc df row col of Inl e \<Rightarrow> Inl e | Inr v \<Rightarrow> Inr (Some (str_value sr idx col v))))"

text \<open>\<open>if not x: x = str(row.iloc[0])\<close> for \<open>x\<close> that is \<open>None\<close> or a string.\<close>

definition or_first :: "dataframe \<Rightarrow> cell list \<Rightarrow> string option \<Rightarrow> py_error + string" where
  "or_first df row x =
     (case x of
        Some (c # cs) \<Rightarrow> Inr (c # cs)
      | _ \<Rightarrow> (case iloc df row 0 of Inl e \<Rightarrow> Inl e | Inr c \<Rightarrow> Inr (str_of c)))"

text \<open>\<open>if precio: records.append(mk precio)\<close> for the \<open>precio\<close> that \<open>clean_price\<close> returned.\<close>

definition emit :: "pyfloat option \<Rightarrow> (pyfloat \<Rightarrow> price_record) \<Rightarrow> price_record list" where
  "emit precio_v mk = (case precio_v of None \<Rightarrow> [] | Some p \<Rightarrow> if truthy p then [mk p] else [])"

definition por_lugar_row ::
  "(nat \<Rightarrow> string \<Rightarrow> cell list \<Rightarrow> string) \<Rightarrow> item \<Rightarrow> dataframe \<Rightarrow> nat \<Rightarrow> cell list
     \<Rightarrow> py_error + price_record list" where
  "por_lugar_row sr it df idx row =
     (case find_by_kw sr [''lugar'', ''feria'', ''mercado''] df idx row of
        Inl e \<Rightarrow> Inl e
      | Inr found \<Rightarrow>
          (case or_first df row found of
             Inl e \<Rightarrow> Inl e
           | Inr lugar_v \<Rightarrow>
               collect (map (\<lambda>col.
                 if any_kw_in [''precio'', ''valor'', ''b/'', ''$''] (lower col)
                 then (case loc df row col of
                         Inl e \<Rightarrow> Inl e
                       | Inr v \<Rightarrow>
                           (case clean_value v of
                              Inl e \<Rightarrow> Inl e
                            | Inr precio_v \<Rightarrow> Inr (emit precio_v (\<lambda>p.
                                \<lparr>fecha_desde = date_from it, fecha_hasta = date_to it,
                                 lugar = strip lugar_v, categoria = col, precio = p,
                                 fuente_pdf = pdf_filename it, tipo_tabla = table_type it\<rparr>))))
                 else Inr []) (columns df))))"

text \<open>\<open>for idx, row in df.iterrows()\<close>: the rows with their index, counted from 0.\<close>

definition normalize_por_lugar ::
  "(nat \<Rightarrow> string \<Rightarrow> cell list \<Rightarrow> string) \<Rightarrow> item \<Rightarrow> dataframe \<Rightarrow> py_error + price_record list" where
  "normalize_por_lugar sr it df =
     collect (map (\<lambda>(idx, row). por_lugar_row sr it df idx row) (enumerate 0 (rows df)))"

definition por_categoria_row ::
  "(nat \<Rightarrow> string \<Rightarrow> cell list \<Rightarrow> string) \<Rightarrow> item \<Rightarrow> dataframe \<Rightarrow> nat \<Rightarrow> cell list
     \<Rightarrow> py_error + price_record list" where
  "por_categoria_row sr it df idx row =
     (case find_by_kw sr [''categor'' @ [CHR 0xED] @ ''a'', ''categoria'', ''tipo''] df idx row of
        Inl e \<Rightarrow> Inl e
      | Inr found \<Rightarrow>
          (case or_first df row found of
             Inl e \<Rightarrow> Inl e
           | Inr categoria_v \<Rightarrow>
               collect (map (\<lambda>col.
                 if col \<noteq> hd (columns df)
                 then (case loc df row col of
                         Inl e \<Rightarrow> Inl e
                       | Inr v \<Rightarrow>
                           (case clean_value v of
                              Inl e \<Rightarrow> Inl e
                            | Inr precio_v \<Rightarrow> Inr (emit precio_v (\<lambda>p.
                                \<lparr>fecha_desde = date_from it, fecha_hasta = date_to it,
                                 lugar = (if \<not> str_in ''precio'' (lower col) then col else ''General''),
                                 categoria = strip categoria_v, precio = p,
                                 fuente_pdf = pdf_filename it, tipo_tabla = table_type it\<rparr>))))
                 else Inr []) (columns df))))"

definition normalize_por_categoria ::
  "(nat \<Rightarrow> string \<Rightarrow> cell list \<Rightarrow> string) \<Rightarrow> item \<Rightarrow> dataframe \<Rightarrow> py_error + price_record list" where
  "normalize_por_categoria sr it df =
     collect (map (\<lambda>(idx, row). por_categoria_row sr it df idx row) (enumerate 0 (rows df)))"

text \<open>\<open>enumerate(df.columns[1:], 1)\<close>.\<close>

definition enumerate_tail :: "string list \<Rightarrow> (nat \<times> string) list" where
  "enumerate_tail cols = zip [1 ..< length cols] (tl cols)"

definition general_row :: "item \<Rightarrow> dataframe \<Rightarrow> cell list \<Rightarrow> py_error + price_record list" where
  "general_row it df row =
     (case iloc df row 0 of
        Inl e \<Rightarrow> Inl e
      | Inr c0 \<Rightarrow>
          (let identifier = strip (str_of c0)
           in collect (map (\<lambda>(col_idx, col).
                case iloc df row col_idx of
                  Inl e \<Rightarrow> Inl e
                | Inr c \<Rightarrow> Inr (emit (clean_price c) (\<lambda>p.
                    \<lparr>fecha_desde = date_from it, fecha_hasta = date_to it,
                     lugar = (if str_in ''lugar'' (lower (hd (columns df))) then identifier else col),
                     categoria = (if str_in ''categ'' (lower (hd (columns df))) then identifier else col),
                     precio = p,
                     fuente_pdf = pdf_filename it, tipo_tabla = table_type it\<rparr>)))
              (enumerate_tail (columns df)))))"

definition normalize_general :: "item \<Rightarrow> dataframe \<Rightarrow> py_error + price_record list" where
  "normalize_general it df = collect (map (general_row it df) (rows df))"

definition normalize_item ::
  "(nat \<Rightarrow> string \<Rightarrow> cell list \<Rightarrow> string) \<Rightarrow> item \<Rightarrow> py_error + price_record list" where
  "normalize_item sr it =
     (if table_type it = Por_lugar then normalize_por_lugar sr it (data it)
      else if table_type it = Por_categoria then normalize_por_categoria sr it (data it)
      else normalize_general it (data it))"

definition normalize_data ::
  "(nat \<Rightarrow> string \<Rightarrow> cell list \<Rightarrow> string) \<Rightarrow> item list \<Rightarrow> py_error + price_record list" where
  "normalize_data sr tables_data = collect (map (normalize_item sr) tables_data)"

text \<open>
  The cells each strategy reads a price from, row by row: under the columns whose label
  has a price keyword (por_lugar), under the columns whose label is not that of the
  first column (por_categoria), under every column but the first (generic).
\<close>

definition price_positions :: "item \<Rightarrow> nat list" where
  "price_positions it =
     (let cols = columns (data it)
      in if table_type it = Por_lugar
         then filter (\<lambda>i. any_kw_in [''precio'', ''valor'', ''b/'', ''$''] (lower (cols ! i)))
                [0 ..< length cols]
         else if table_type it = Por_categoria
         then filter (\<lambda>i. cols ! i \<noteq> hd cols) [0 ..< length cols]
         else [1 ..< length cols])"

definition source_cells :: "item \<Rightarrow> cell list" where
  "source_cells it =
     concat (map (\<lambda>row. map (cell_at row) (price_positions it)) (rows (data it)))"

text \<open>What one such cell contributes: its cleaned price when that is true in
  \<open>if precio:\<close>, and nothing when the cleaning fails or gives zero.\<close>

definition cleaned :: "cell \<Rightarrow> pyfloat list" where
  "cleaned c = (case clean_price c of None \<Rightarrow> [] | Some p \<Rightarrow> if truthy p then [p] else [])"

text \<open>
  The relation between an emitted price and the cell it was cleaned from: the cell is a
  string that cleans to that price, the price is positive, and it is finite when the
  first digit run of the cleaned cell is a number below \<open>2^1024 - 2^970\<close>.
\<close>

fun from_cell :: "cell \<Rightarrow> pyfloat \<Rightarrow> bool" where
  "from_cell None p = False"
| "from_cell (Some s) p =
     (clean_price (Some s) = Some p \<and> positive p
      \<and> (dec_val (digit_run s) < 2 ^ 1024 - 2 ^ 970 \<longrightarrow> finite_float p))"

section \<open>Seasonal analysis\<close>

text \<open>
  The frame \<open>analizar_por_mes\<close> groups: a row is the pair of its columns \<open>mes\<close> and
  \<open>precio\<close>, the latter a float. The statistics are those pandas computes in binary64:
  every one of them skips the NaN prices.
\<close>

type_synonym fila = "nat \<times> pyfloat"

text \<open>
  A row of the table of months, over the type of its numbers: floats as
  \<open>analizar_por_mes\<close> computes them, or real numbers for a table whose numbers are all
  finite. \<open>Desv_Est\<close> is \<open>None\<close> for a missing deviation in a table of real numbers.
\<close>

record 'v mes_stats =
  mes :: nat
  Mes :: "string option"
  Promedio :: 'v
  Mediana :: 'v
  Desv_Est :: "'v option"
  Minimo :: 'v
  Maximo :: 'v
  Registros :: nat

text \<open>\<open>round(2)\<close> of numpy: the product with 100 is rounded to an integer and divided by
  100, each step in binary64.\<close>

definition round2 :: "pyfloat \<Rightarrow> pyfloat" where
  "round2 x = fdiv (rint (fmul x (Fin 100))) (Fin 100)"

text \<open>
  The mean of a group (\<open>group_mean\<close> of pandas): the values are added in the order of
  the rows by compensated (Kahan) summation, a NaN compensation being reset to 0, and
  the sum is divided by the count.
\<close>

fun kahan :: "pyfloat \<Rightarrow> pyfloat \<Rightarrow> pyfloat list \<Rightarrow> pyfloat" where
  "kahan sumx compensation [] = sumx"
| "kahan sumx compensation (val # vals) =
     (let y = fsub val compensation;
          t = fadd sumx y;
          c = fsub (fsub t sumx) y
      in kahan t (if c = NaN then Fin 0 else c) vals)"

definition mean :: "pyfloat list \<Rightarrow> pyfloat" where
  "mean xs =
     (if xs = [] then NaN
      else fdiv (kahan (Fin 0) (Fin 0) xs) (round_double (of_nat (length xs))))"

text \<open>The median: the middle value of the sorted group, or the mean of the two middle
  values.\<close>

definition median :: "pyfloat list \<Rightarrow> pyfloat" where
  "median xs =
     (let s = sort xs; n = length s
      in if n = 0 then NaN
         else if odd n then s ! (n div 2)
         else fdiv (fadd (s ! (n div 2)) (s ! (n div 2 - 1))) (Fin 2))"

definition minimo :: "pyfloat list \<Rightarrow> pyfloat" where
  "minimo xs = (if xs = [] then NaN else Min (set xs))"

definition maximo :: "pyfloat list \<Rightarrow> pyfloat" where
  "maximo xs = (if xs = [] then NaN else Max (set xs))"

definition meses_nombres :: "nat \<Rightarrow> string option" where
  "meses_nombres = map_of
     [(1, ''Enero''), (2, ''Febrero''), (3, ''Marzo''), (4, ''Abril''),
      (5, ''Mayo''), (6, ''Junio''), (7, ''Julio''), (8, ''Agosto''),
      (9, ''Septiembre''), (10, ''Octubre''), (11, ''Noviembre''), (12, ''Diciembre'')]"

text \<open>The \<open>precio\<close> values of the group of month \<open>m\<close> that are not NaN, in the order of the
  rows.\<close>

definition grupo :: "fila list \<Rightarrow> nat \<Rightarrow> pyfloat list" where
  "grupo df m = filter (\<lambda>p. p \<noteq> NaN) (map snd (filter (\<lambda>r. fst r = m) df))"

text \<open>
  The sample standard deviation of pandas (an online accumulation in the order of the
  rows and a square root, in binary64) is not modelled: the table takes it as the
  parameter \<open>desv\<close>.
\<close>

definition stats_of :: "(pyfloat list \<Rightarrow> pyfloat) \<Rightarrow> nat \<Rightarrow> pyfloat list \<Rightarrow> pyfloat mes_stats" where
  "stats_of desv m xs =
     \<lparr>mes = m, Mes = meses_nombres m,
      Promedio = round2 (mean xs), Mediana = round2 (median xs),
      Desv_Est = Some (round2 (desv xs)),
      Minimo = round2 (minimo xs), Maximo = round2 (maximo xs),
      Registros = length xs\<rparr>"

text \<open>\<open>groupby('mes')\<close> lists the months that occur, in ascending order.\<close>

definition analizar_por_mes :: "(pyfloat list \<Rightarrow> pyfloat) \<Rightarrow> fila list \<Rightarrow> pyfloat mes_stats list" where
  "analizar_por_mes desv df =
     map (\<lambda>m. stats_of desv m (grupo df m)) (sorted_list_of_set (set (map fst df)))"

text \<open>
  Prices that are whole numbers, none negative, of a total below \<open>2^53\<close>: every sum of
  some of them is a binary64 number.
\<close>

fun entero :: "pyfloat \<Rightarrow> bool" where
  "entero (Fin a) = (0 \<le> a \<and> of_int \<lfloor>a\<rfloor> = a)"
| "entero x = False"

definition precios_enteros :: "fila list \<Rightarrow> bool" where
  "precios_enteros df =
     (list_all (\<lambda>r. entero (snd r)) df \<and> sum_list (map (\<lambda>r. fval (snd r)) df) < 2 ^ 53)"

text \<open>
  The table of months as a table of real numbers, when its means, medians, minima and
  maxima are all finite.
\<close>

fun valor :: "pyfloat \<Rightarrow> real option" where
  "valor (Fin a) = Some (of_rat a)"
| "valor x = None"

definition fila_real :: "pyfloat mes_stats \<Rightarrow> real mes_stats option" where
  "fila_real r =
     (case (valor (Promedio r), valor (Mediana r), valor (Minimo r), valor (Maximo r)) of
        (Some p, Some md, Some mn, Some mx) \<Rightarrow>
          Some \<lparr>mes = mes r, Mes = Mes r, Promedio = p, Mediana = md,
                Desv_Est = Option.bind (Desv_Est r) valor, Minimo = mn, Maximo = mx,
                Registros = Registros r\<rparr>
      | _ \<Rightarrow> None)"

fun tabla_real :: "pyfloat mes_stats list \<Rightarrow> real mes_stats list option" where
  "tabla_real [] = Some []"
| "tabla_real (r # rs) =
     (case (fila_real r, tabla_real rs) of (Some x, Some xs) \<Rightarrow> Some (x # xs) | _ \<Rightarrow> None)"

text \<open>
  \<open>nsmallest(n, col)\<close> and \<open>nlargest(n, col)\<close> with the default \<open>keep='first'\<close>: the first
  \<open>n\<close> rows in ascending, respectively descending, order of the column, rows of equal
  value in their order in the frame.
\<close>

definition nsmallest :: "nat \<Rightarrow> ('a \<Rightarrow> real) \<Rightarrow> 'a list \<Rightarrow> 'a list" where
  "nsmallest n col t = take n (sort_key col t)"

definition nlargest :: "nat \<Rightarrow> ('a \<Rightarrow> real) \<Rightarrow> 'a list \<Rightarrow> 'a list" where
  "nlargest n col t = take n (sort_key (\<lambda>r. - col r) t)"

definition identificar_mejores_meses ::
  "real mes_stats list \<Rightarrow> real mes_stats list \<times> real mes_stats list" where
  "identificar_mejores_meses precios_por_mes =
     (let mejores_compra = nsmallest 3 Promedio precios_por_mes;
          mejores_venta = nlargest 3 Promedio precios_por_mes
      in (mejores_compra, mejores_venta))"

text \<open>
  The preferences of the specification between two months: \<open>cheaper a b\<close>, month \<open>a\<close>
  goes before month \<open>b\<close> among the months to buy (lower mean price, the earlier month on
  equal means), and \<open>dearer a b\<close>, the same among the months to sell.
\<close>

definition cheaper :: "real mes_stats \<Rightarrow> real mes_stats \<Rightarrow> bool" where
  "cheaper a b = (Promedio a < Promedio b \<or> (Promedio a = Promedio b \<and> mes a < mes b))"

definition dearer :: "real mes_stats \<Rightarrow> real mes_stats \<Rightarrow> bool" where
  "dearer a b = (Promedio b < Promedio a \<or> (Promedio a = Promedio b \<and> mes a < mes b))"

text \<open>The row of a month that has the single price \<open>p\<close>.\<close>

definition fila_mes :: "nat \<Rightarrow> real \<Rightarrow> real mes_stats" where
  "fila_mes m p =
     \<lparr>mes = m, Mes = meses_nombres m, Promedio = p, Mediana = p, Desv_Est = None,
      Minimo = p, Maximo = p, Registros = 1\<rparr>"

section \<open>Facts about the float conversion\<close>

lemma pow2_powi: "pow2 e = 2 powi e"
  by (simp add: pow2_def power_int_def inverse_eq_divide power_one_over)

lemma pow2_pos: "0 < pow2 e"
  by (simp add: pow2_def)

lemma pow2_add: "pow2 (a + b) = pow2 a * pow2 b"
  by (simp add: pow2_powi power_int_add)

lemma pow2_le_iff: "pow2 a \<le> pow2 b \<longleftrightarrow> a \<le> b"
proof
  assume "pow2 a \<le> pow2 b"
  show "a \<le> b"
  proof (rule ccontr)
    assume "\<not> a \<le> b"
    then have "pow2 b < pow2 a"
      unfolding pow2_powi by (intro power_int_strict_increasing) simp_all
    with \<open>pow2 a \<le> pow2 b\<close> show False by simp
  qed
next
  assume "a \<le> b"
  then show "pow2 a \<le> pow2 b"
    unfolding pow2_powi by (intro power_int_increasing) simp_all
qed

lemma pow2_less_iff: "pow2 a < pow2 b \<longleftrightarrow> a < b"
  using pow2_le_iff [of b a] by (simp add: not_le [symmetric])

lemma pow2_of_nat: "pow2 (int n) = 2 ^ n"
  by (simp add: pow2_def)

lemma round_half_even_of_int: "round_half_even (of_int n :: 'a::floor_ceiling) = n"
  by (simp add: round_half_even_def)

lemma round_half_even_ge_floor: "\<lfloor>x\<rfloor> \<le> round_half_even x"
  by (simp add: round_half_even_def Let_def)

lemma round_half_even_nonneg: "0 \<le> x \<Longrightarrow> 0 \<le> round_half_even x"
  using round_half_even_ge_floor [of x] by (simp add: order_trans [of 0 "\<lfloor>x\<rfloor>"])

lemma nat_bits: "0 < n \<Longrightarrow> 2 ^ (floorlog 2 n - 1) \<le> n \<and> n < 2 ^ floorlog 2 n"
  using floorlog_bounds [of n 2] by simp

lemma ilog2_bounds:
  assumes "0 < a"
  shows "pow2 (ilog2 a) \<le> a \<and> a < pow2 (ilog2 a + 1)"
proof -
  obtain p q where pq: "quotient_of a = (p, q)" by (cases "quotient_of a")
  have q: "0 < q" using pq by (rule quotient_of_denom_pos)
  have a: "a = of_int p / of_int q"
    using pq by (metis Fract_of_int_quotient quotient_of_div)
  have p: "0 < p" using assms q a by (simp add: zero_less_divide_iff)
  define bp where "bp = floorlog 2 (nat p)"
  define bq where "bq = floorlog 2 (nat q)"
  have bp: "2 ^ (bp - 1) \<le> nat p" "nat p < 2 ^ bp"
    using nat_bits [of "nat p"] p by (simp_all add: bp_def)
  have bq: "2 ^ (bq - 1) \<le> nat q" "nat q < 2 ^ bq"
    using nat_bits [of "nat q"] q by (simp_all add: bq_def)
  have bp1: "1 \<le> bp" using p by (simp add: bp_def floorlog_def)
  have bq1: "1 \<le> bq" using q by (simp add: bq_def floorlog_def)
  have P: "(2::rat) ^ (bp - 1) \<le> of_int p" "of_int p < (2::rat) ^ bp"
  proof -
    have "(of_nat (2 ^ (bp - 1)) :: rat) \<le> of_nat (nat p)" using bp(1) by (simp only: of_nat_le_iff)
    then show "(2::rat) ^ (bp - 1) \<le> of_int p" using p by simp
    have "(of_nat (nat p) :: rat) < of_nat (2 ^ bp)" using bp(2) by (simp only: of_nat_less_iff)
    then show "of_int p < (2::rat) ^ bp" using p by simp
  qed
  have Q: "(2::rat) ^ (bq - 1) \<le> of_int q" "of_int q < (2::rat) ^ bq"
  proof -
    have "(of_nat (2 ^ (bq - 1)) :: rat) \<le> of_nat (nat q)" using bq(1) by (simp only: of_nat_le_iff)
    then show "(2::rat) ^ (bq - 1) \<le> of_int q" using q by simp
    have "(of_nat (nat q) :: rat) < of_nat (2 ^ bq)" using bq(2) by (simp only: of_nat_less_iff)
    then show "of_int q < (2::rat) ^ bq" using q by simp
  qed
  define k where "k = int bp - int bq"
  have il: "ilog2 a = (if pow2 k \<le> a then k else k - 1)"
    by (simp add: ilog2_def pq k_def bp_def bq_def Let_def)
  have qpos: "(0::rat) < of_int q" using q by simp
  have up: "a < pow2 (k + 1)"
  proof -
    have "pow2 (k + 1) = 2 ^ bp / 2 ^ (bq - 1)"
      using bq1 by (simp add: pow2_powi k_def power_int_diff power_int_add of_nat_diff flip: power_int_of_nat)
    moreover have "of_int p / of_int q < (2::rat) ^ bp / 2 ^ (bq - 1)"
      using P(2) Q(1) qpos by (intro frac_less) (use p in simp_all)
    ultimately show ?thesis by (simp add: a)
  qed
  have lo: "pow2 (k - 1) \<le> a"
  proof -
    have "pow2 (k - 1) = 2 ^ (bp - 1) / 2 ^ bq"
      using bp1 by (simp add: pow2_powi k_def power_int_diff of_nat_diff flip: power_int_of_nat)
    moreover have "(2::rat) ^ (bp - 1) / 2 ^ bq \<le> of_int p / of_int q"
      using P(1) Q(2) qpos p by (intro frac_le) simp_all
    ultimately show ?thesis by (simp add: a)
  qed
  show ?thesis using up lo by (auto simp: il not_le)
qed

lemma round_double_exact:
  assumes "n < 2 ^ 53"
  shows "round_double (of_nat n) = Fin (of_nat n)"
proof (cases "n = 0")
  case True
  then show ?thesis by (simp add: round_double_def)
next
  case False
  define a :: rat where "a = of_nat n"
  have apos: "0 < a" using False by (simp add: a_def)
  have "a < 2 ^ 53"
  proof -
    have "(of_nat n :: rat) < of_nat (2 ^ 53)" using assms by (simp only: of_nat_less_iff)
    then show ?thesis by (simp add: a_def)
  qed
  then have "pow2 (ilog2 a) < pow2 53"
    using ilog2_bounds [OF apos] by (simp add: pow2_def)
  then have le: "ilog2 a \<le> 52" by (simp add: pow2_less_iff)
  define e where "e = max (ilog2 a - 52) (- 1074)"
  have e: "e \<le> 0" using le by (simp add: e_def)
  have pe: "pow2 e = 1 / 2 ^ nat (- e)" using e by (cases "e = 0") (simp_all add: pow2_def)
  have "a / pow2 e = of_int (int n * 2 ^ nat (- e))" by (simp add: pe a_def)
  then have "round_half_even (a / pow2 e) = int n * 2 ^ nat (- e)"
    by (simp only: round_half_even_of_int)
  then have r: "of_int (round_half_even (a / pow2 e)) * pow2 e = a"
    by (simp add: pe a_def)
  have "\<not> 2 ^ 1024 \<le> a" using \<open>a < 2 ^ 53\<close> by simp
  then show ?thesis
    using apos r by (simp add: round_double_def Let_def a_def [symmetric] e_def [symmetric])
qed

lemma round_double_overflow:
  assumes "2 ^ 1024 \<le> a"
  shows "round_double a = PInf"
proof -
  have apos: "0 < a" using assms by (rule less_le_trans [rotated]) simp
  have "pow2 1024 < pow2 (ilog2 a + 1)"
    using ilog2_bounds [OF apos] assms by (simp add: pow2_def)
  then have ge: "1024 \<le> ilog2 a" by (simp add: pow2_less_iff)
  define e where "e = max (ilog2 a - 52) (- 1074)"
  have e: "e = ilog2 a - 52" using ge by (simp add: e_def)
  have split: "pow2 (ilog2 a) = pow2 52 * pow2 e"
    using pow2_add [of 52 e] by (simp only: e) simp
  then have "pow2 52 \<le> a / pow2 e"
    using ilog2_bounds [OF apos] pow2_pos [of e] by (simp add: pos_le_divide_eq)
  then have "(of_int (2 ^ 52) :: rat) \<le> a / pow2 e" by (simp add: pow2_def)
  then have "2 ^ 52 \<le> \<lfloor>a / pow2 e\<rfloor>" by (simp only: le_floor_iff)
  then have "2 ^ 52 \<le> round_half_even (a / pow2 e)"
    using round_half_even_ge_floor [of "a / pow2 e"] by linarith
  then have "(of_int (2 ^ 52) :: rat) \<le> of_int (round_half_even (a / pow2 e))"
    by (simp only: of_int_le_iff)
  then have "pow2 52 * pow2 e \<le> of_int (round_half_even (a / pow2 e)) * pow2 e"
    using pow2_pos [of e] by (simp add: pow2_def)
  moreover have "pow2 52 * pow2 e = pow2 (ilog2 a)"
    using split by simp
  moreover have "pow2 1024 \<le> pow2 (ilog2 a)" using ge by (simp add: pow2_le_iff)
  ultimately have "2 ^ 1024 \<le> of_int (round_half_even (a / pow2 e)) * pow2 e"
    by (simp add: pow2_def)
  then show ?thesis
    using apos by (simp add: round_double_def Let_def e_def [symmetric])
qed

lemma round_double_nonneg: "0 \<le> v \<Longrightarrow> nonneg (round_double v)"
  by (simp add: round_double_def Let_def round_half_even_nonneg pow2_pos less_imp_le)

section \<open>Facts about the price cleaner\<close>

lemma try_down_top: "lo \<le> n \<Longrightarrow> k n = Some r \<Longrightarrow> try_down lo n k = Some r"
  by (cases n) auto

lemma try_down_none: "n < lo \<Longrightarrow> try_down lo n k = None"
  by (cases n) auto

lemma price_match_nodigit: "\<not> is_digit c \<Longrightarrow> rx_match price_rx (c # cs) g k = None"
  by (simp add: price_rx_def try_down_none)

lemma no_dot_prefix: "CHR ''.'' \<notin> set x \<Longrightarrow> \<not> prefix ''.'' x"
  by (cases x) auto

lemma price_match_digit:
  assumes "is_digit c" and "CHR ''.'' \<notin> set (c # cs)"
  shows "rx_match price_rx (c # cs) [] (\<lambda>s g. Some g) = Some [takeWhile is_digit (c # cs)]"
proof -
  define s where "s = c # cs"
  define n where "n = length (takeWhile is_digit s)"
  have n1: "1 \<le> n" using assms(1) by (simp add: n_def s_def)
  have nd: "\<not> prefix ''.'' (drop n s)"
    using assms(2) by (intro no_dot_prefix) (auto simp: s_def dest: in_set_dropD)
  have tk: "take n s = takeWhile is_digit s"
    unfolding n_def by (rule takeWhile_eq_take [symmetric])
  have "n \<le> length s" unfolding n_def by (rule length_takeWhile_le)
  then have len: "length s - (length s - n) = n" by simp
  have "rx_match price_rx s [] (\<lambda>s g. Some g) = Some [takeWhile is_digit s]"
    unfolding price_rx_def rx_match.simps Let_def option.case n_def [symmetric]
    by (rule try_down_top [OF n1]) (simp add: nd len tk)
  then show ?thesis by (simp add: s_def)
qed

lemma price_search:
  "CHR ''.'' \<notin> set t \<Longrightarrow>
   re_search price_rx t =
     (if dropWhile (\<lambda>c. \<not> is_digit c) t = [] then None
      else Some [takeWhile is_digit (dropWhile (\<lambda>c. \<not> is_digit c) t)])"
proof (induction t)
  case Nil
  show ?case by (simp add: price_rx_def)
next
  case (Cons c cs)
  show ?case
  proof (cases "is_digit c")
    case True
    have "rx_match price_rx (c # cs) [] (\<lambda>s g. Some g) = Some [takeWhile is_digit (c # cs)]"
      using True Cons.prems by (rule price_match_digit)
    then show ?thesis using True by simp
  next
    case False
    then show ?thesis using Cons by (simp add: price_match_nodigit)
  qed
qed

lemma is_digit_not_dot: "is_digit c \<Longrightarrow> c \<noteq> CHR ''.'' \<and> c \<noteq> CHR ''-'' \<and> c \<noteq> CHR ''+''"
  by (auto simp: is_digit_def ord_def)

lemma unsigned_val_digits: "all_digits m \<Longrightarrow> unsigned_val m = Some (of_nat (dec_val m))"
proof -
  assume a: "all_digits m"
  then have "\<forall>c\<in>set m. c \<noteq> CHR ''.''"
    by (auto simp: all_digits_def list_all_iff dest: is_digit_not_dot)
  then have tw: "takeWhile (\<lambda>c. c \<noteq> CHR ''.'') m = m"
    and dw: "dropWhile (\<lambda>c. c \<noteq> CHR ''.'') m = []"
    by simp_all
  show ?thesis unfolding unsigned_val_def Let_def tw dw using a by simp
qed

lemma py_float_digits: "all_digits m \<Longrightarrow> py_float m = Some (round_double (of_nat (dec_val m)))"
proof -
  assume a: "all_digits m"
  then obtain c cs where m: "m = c # cs" by (cases m) (auto simp: all_digits_def)
  with a have "is_digit c" by (simp add: all_digits_def)
  then have "c \<noteq> CHR ''-''" "c \<noteq> CHR ''+''" using is_digit_not_dot by blast+
  then show ?thesis using unsigned_val_digits [OF a] by (simp add: py_float_def m)
qed

lemma clean_price_eq:
  "clean_price (Some s) =
     (if digit_run s = [] then None else Some (round_double (of_nat (dec_val (digit_run s)))))"
proof (cases "s = []")
  case True
  then show ?thesis by (simp add: clean_price_def digit_run_def re_sub_cls_def)
next
  case False
  define t where "t = re_sub_cls strip_cls s"
  define u where "u = dropWhile (\<lambda>c. \<not> is_digit c) t"
  have nodot: "CHR ''.'' \<notin> set t" by (auto simp: t_def re_sub_cls_def strip_cls_def)
  have run: "digit_run s = takeWhile is_digit u" by (simp add: digit_run_def t_def u_def)
  show ?thesis
  proof (cases "u = []")
    case True
    then show ?thesis using False price_search [OF nodot]
      by (simp add: clean_price_def t_def [symmetric] u_def [symmetric] run)
  next
    case u: False
    then have "is_digit (hd u)" unfolding u_def by (metis hd_dropWhile)
    then have ne: "takeWhile is_digit u \<noteq> []" using u by (cases u) auto
    then have "all_digits (takeWhile is_digit u)"
      by (auto simp: all_digits_def list_all_iff dest: set_takeWhileD)
    then show ?thesis using False u ne price_search [OF nodot]
      by (simp add: clean_price_def t_def [symmetric] u_def [symmetric] run py_float_digits)
  qed
qed


lemma digit_run_currency: "digit_run ''B/.1,234.56'' = ''123456''"
  by (simp add: digit_run_def re_sub_cls_def strip_cls_def is_space_def is_digit_def ord_def)

lemma dec_val_123456: "dec_val ''123456'' = 123456"
  by (simp add: dec_val_def digit_val_def ord_def)

text \<open>
  C1. On the cell \<open>B/.1,234.56\<close> the price cleaner returns 123456.0: the class it deletes
  holds the dot, so the decimal point goes with the currency marker and the separators,
  and the value is a hundred times the 1234.56 that the cell reads. No cleaned cell
  keeps a dot, so the fraction part of the extraction pattern never matches.
\<close>

theorem clean_price_currency_format:
  "clean_price (Some ''B/.1,234.56'') = Some (Fin 123456) \<and> (123456 :: rat) \<noteq> 123456 / 100
   \<and> CHR ''.'' \<notin> set (re_sub_cls strip_cls s)"
  using round_double_exact [of 123456]
  by (simp add: clean_price_eq digit_run_currency dec_val_123456 re_sub_cls_def strip_cls_def)

lemma digit_run_minus_150: "digit_run ''-150'' = ''150''"
  by (simp add: digit_run_def re_sub_cls_def strip_cls_def is_space_def is_digit_def ord_def)

lemma dec_val_150: "dec_val ''150'' = 150"
  by (simp add: dec_val_def digit_val_def ord_def)

text \<open>
  C10. The price cleaner never returns a negative value: whatever the cell, a value it
  returns is zero, positive or plus infinity. A sign before the digits is skipped by
  the search for the first digit run, so the cell \<open>-150\<close> gives the positive value 150.0,
  neither a negative price nor a rejection.
\<close>

theorem clean_price_never_negative:
  "(clean_price c = Some v \<longrightarrow> nonneg v)
   \<and> clean_price (Some ''-150'') = Some (Fin 150) \<and> positive (Fin 150)"
proof (intro conjI impI)
  assume cv: "clean_price c = Some v"
  then obtain s where c: "c = Some s" by (cases c) (simp_all add: clean_price_def)
  from cv have "v = round_double (of_nat (dec_val (digit_run s)))"
    by (simp add: c clean_price_eq split: if_splits)
  then show "nonneg v" by (simp add: round_double_nonneg)
next
  show "clean_price (Some ''-150'') = Some (Fin 150)"
    using round_double_exact [of 150] by (simp add: clean_price_eq digit_run_minus_150 dec_val_150)
next
  show "positive (Fin 150)" by simp
qed

theorem clean_price_never_negative_witness:
  "clean_price (Some ''-150'') = Some (Fin 150) \<and> nonneg (Fin 150)"
  using clean_price_never_negative [of "Some ''-150''" "Fin 150"] by simp

section \<open>Facts about the classifier and the normalizer on given tables\<close>

lemmas lower_eval = lower_def lower_char_def ord_def char_of_def bit_Suc_0_iff

lemmas digit_run_eval = digit_run_def re_sub_cls_def strip_cls_def is_space_def is_digit_def ord_def

lemmas dec_val_eval = dec_val_def digit_val_def ord_def

lemmas classify_eval = identify_table_type_def df_empty_def first_cell_def cell_at_def str_of_def
  keywords_lugar_def keywords_categoria_def keywords_precio_def any_kw_in_def Let_def

lemmas normalize_eval = normalize_data_def normalize_item_def normalize_por_lugar_def
  por_lugar_row_def normalize_por_categoria_def por_categoria_row_def normalize_general_def
  general_row_def enumerate_tail_def find_by_kw_def or_first_def loc_def positions_def
  str_value_def clean_value_def iloc_def cell_at_def str_of_def emit_def any_kw_in_def
  strip_def is_space_def Let_def

lemma clean_price_150_00: "clean_price (Some ''150.00'') = Some (Fin 15000)"
proof -
  have "digit_run ''150.00'' = ''15000''" by (simp add: digit_run_eval)
  moreover have "dec_val ''15000'' = 15000" by (simp add: dec_val_eval)
  ultimately show ?thesis using round_double_exact [of 15000] by (simp add: clean_price_eq)
qed

lemma clean_price_100: "clean_price (Some ''100'') = Some (Fin 100)"
proof -
  have "digit_run ''100'' = ''100''" by (simp add: digit_run_eval)
  moreover have "dec_val ''100'' = 100" by (simp add: dec_val_eval)
  ultimately show ?thesis using round_double_exact [of 100] by (simp add: clean_price_eq)
qed

lemma clean_price_110: "clean_price (Some ''110'') = Some (Fin 110)"
proof -
  have "digit_run ''110'' = ''110''" by (simp add: digit_run_eval)
  moreover have "dec_val ''110'' = 110" by (simp add: dec_val_eval)
  ultimately show ?thesis using round_double_exact [of 110] by (simp add: clean_price_eq)
qed

text \<open>
  C2. The table with the headers Lugar and Precio Novillo and the data row
  Divisa, 150.00 is classified por_lugar, and its normalization is one record with
  lugar Divisa and categoria Precio Novillo; the precio of that record is 15000.0, not
  150.0, since the price cleaner deletes the decimal point of the cell.
\<close>

theorem lugar_precio_novillo:
  "identify_table_type
     \<lparr>columns = [''Lugar'', ''Precio Novillo''], rows = [[Some ''Divisa'', Some ''150.00'']]\<rparr>
     = Por_lugar
   \<and> normalize_data sr
       [\<lparr>pdf_path = pp, pdf_filename = fn, page = pg, table_num = tn, table_type = Por_lugar,
         date_from = d1, date_to = d2,
         data = \<lparr>columns = [''Lugar'', ''Precio Novillo''],
                 rows = [[Some ''Divisa'', Some ''150.00'']]\<rparr>\<rparr>]
     = Inr [\<lparr>fecha_desde = d1, fecha_hasta = d2, lugar = ''Divisa'',
             categoria = ''Precio Novillo'', precio = Fin 15000, fuente_pdf = fn,
             tipo_tabla = Por_lugar\<rparr>]
   \<and> Fin 15000 \<noteq> Fin 150"
proof (intro conjI)
  show "identify_table_type
     \<lparr>columns = [''Lugar'', ''Precio Novillo''], rows = [[Some ''Divisa'', Some ''150.00'']]\<rparr>
     = Por_lugar"
    by (simp add: classify_eval lower_eval)
  show "normalize_data sr
       [\<lparr>pdf_path = pp, pdf_filename = fn, page = pg, table_num = tn, table_type = Por_lugar,
         date_from = d1, date_to = d2,
         data = \<lparr>columns = [''Lugar'', ''Precio Novillo''],
                 rows = [[Some ''Divisa'', Some ''150.00'']]\<rparr>\<rparr>]
     = Inr [\<lparr>fecha_desde = d1, fecha_hasta = d2, lugar = ''Divisa'',
             categoria = ''Precio Novillo'', precio = Fin 15000, fuente_pdf = fn,
             tipo_tabla = Por_lugar\<rparr>]"
    by (simp add: normalize_eval lower_eval clean_price_150_00 upt_rec)
  show "Fin 15000 \<noteq> Fin 150" by simp
qed

text \<open>
  C5. The table with the headers Categor\'ia, Mercado A, Mercado B and the data row
  Ternera, 100, 110 has no price keyword in its headers, so it is classified general, and
  the generic strategy gives exactly two records: Ternera at Mercado A for 100.0 and
  Ternera at Mercado B for 110.0.
\<close>

theorem categoria_mercados_end_to_end:
  "identify_table_type
     \<lparr>columns = [''Categor'' @ [CHR 0xED] @ ''a'', ''Mercado A'', ''Mercado B''],
      rows = [[Some ''Ternera'', Some ''100'', Some ''110'']]\<rparr>
     = General
   \<and> normalize_data sr
       [\<lparr>pdf_path = pp, pdf_filename = fn, page = pg, table_num = tn, table_type = General,
         date_from = d1, date_to = d2,
         data = \<lparr>columns = [''Categor'' @ [CHR 0xED] @ ''a'', ''Mercado A'', ''Mercado B''],
                 rows = [[Some ''Ternera'', Some ''100'', Some ''110'']]\<rparr>\<rparr>]
     = Inr [\<lparr>fecha_desde = d1, fecha_hasta = d2, lugar = ''Mercado A'',
             categoria = ''Ternera'', precio = Fin 100, fuente_pdf = fn, tipo_tabla = General\<rparr>,
            \<lparr>fecha_desde = d1, fecha_hasta = d2, lugar = ''Mercado B'',
             categoria = ''Ternera'', precio = Fin 110, fuente_pdf = fn, tipo_tabla = General\<rparr>]"
proof (intro conjI)
  show "identify_table_type
     \<lparr>columns = [''Categor'' @ [CHR 0xED] @ ''a'', ''Mercado A'', ''Mercado B''],
      rows = [[Some ''Ternera'', Some ''100'', Some ''110'']]\<rparr>
     = General"
    by (simp add: classify_eval lower_eval)
  show "normalize_data sr
       [\<lparr>pdf_path = pp, pdf_filename = fn, page = pg, table_num = tn, table_type = General,
         date_from = d1, date_to = d2,
         data = \<lparr>columns = [''Categor'' @ [CHR 0xED] @ ''a'', ''Mercado A'', ''Mercado B''],
                 rows = [[Some ''Ternera'', Some ''100'', Some ''110'']]\<rparr>\<rparr>]
     = Inr [\<lparr>fecha_desde = d1, fecha_hasta = d2, lugar = ''Mercado A'',
             categoria = ''Ternera'', precio = Fin 100, fuente_pdf = fn, tipo_tabla = General\<rparr>,
            \<lparr>fecha_desde = d1, fecha_hasta = d2, lugar = ''Mercado B'',
             categoria = ''Ternera'', precio = Fin 110, fuente_pdf = fn, tipo_tabla = General\<rparr>]"
    by (simp add: normalize_eval lower_eval clean_price_100 clean_price_110 upt_rec)
qed

lemma str_in_Nil: "str_in [] s"
  by (cases s) simp_all

lemma str_in_append: "str_in kw a \<Longrightarrow> str_in kw (a @ b)"
proof (induction a)
  case Nil
  then show ?case by (simp add: str_in_Nil)
next
  case (Cons c cs)
  show ?case
  proof (cases "prefix kw (c # cs)")
    case True
    then have "prefix kw ((c # cs) @ b)" by (rule prefix_prefix)
    then show ?thesis by simp
  next
    case False
    with Cons show ?thesis by simp
  qed
qed

lemma join_sp_snoc: "xs \<noteq> [] \<Longrightarrow> join_sp (xs @ [y]) = join_sp xs @ '' '' @ y"
  by (induction xs rule: join_sp.induct) simp_all

lemma any_kw_in_append: "any_kw_in kws a \<Longrightarrow> any_kw_in kws (a @ b)"
  by (auto simp: any_kw_in_def list_ex_iff intro: str_in_append)

text \<open>
  C3, as the claim states it, fails: with the location keyword in the headers and the
  price keyword only in the first data cell, the combined text has both, yet the
  classifier does not answer por_lugar.
\<close>

theorem price_keyword_in_first_cell_counterexample:
  "any_kw_in keywords_lugar
     (combined_text \<lparr>columns = [''Lugar'', ''Novillo''], rows = [[Some ''Precio Divisa'', Some ''150'']]\<rparr>)
   \<and> any_kw_in keywords_precio
     (combined_text \<lparr>columns = [''Lugar'', ''Novillo''], rows = [[Some ''Precio Divisa'', Some ''150'']]\<rparr>)
   \<and> classifier_spec \<lparr>columns = [''Lugar'', ''Novillo''], rows = [[Some ''Precio Divisa'', Some ''150'']]\<rparr>
       = Por_lugar
   \<and> identify_table_type
       \<lparr>columns = [''Lugar'', ''Novillo''], rows = [[Some ''Precio Divisa'', Some ''150'']]\<rparr>
       = General"
  by (simp add: classifier_spec_def combined_text_def classify_eval lower_eval)

text \<open>
  C3, amended. For every table that is not empty the classifier answers por_lugar if a
  location keyword occurs in the combined text of headers and first cell and a price
  keyword occurs in the headers; otherwise por_categoria if a category keyword occurs in
  the combined text and a price keyword in the headers; otherwise general. It agrees
  with the classifier of the specification on every table whose price keywords, if
  any, show in the headers.
\<close>

theorem identify_table_type_keywords:
  "\<not> df_empty df \<Longrightarrow>
     identify_table_type df =
       (if any_kw_in keywords_lugar (combined_text df) \<and> any_kw_in keywords_precio (header_text df)
        then Por_lugar
        else if any_kw_in keywords_categoria (combined_text df)
                \<and> any_kw_in keywords_precio (header_text df)
        then Por_categoria
        else General)
     \<and> (\<not> any_kw_in keywords_precio (header_text df) \<longrightarrow> identify_table_type df = General)
     \<and> ((any_kw_in keywords_precio (combined_text df) \<longrightarrow> any_kw_in keywords_precio (header_text df))
          \<longrightarrow> identify_table_type df = classifier_spec df)"
proof -
  assume ne: "\<not> df_empty df"
  then have "columns df \<noteq> []" by (simp add: df_empty_def)
  then have "any_kw_in keywords_precio (header_text df) \<Longrightarrow> any_kw_in keywords_precio (combined_text df)"
    by (simp add: header_text_def combined_text_def join_sp_snoc any_kw_in_append)
  then show ?thesis
    using ne by (auto simp: identify_table_type_def classifier_spec_def Let_def
        combined_text_def [symmetric] header_text_def [symmetric])
qed

theorem identify_table_type_keywords_witness:
  "\<not> df_empty \<lparr>columns = [''Feria'', ''Valor''], rows = [[Some ''Divisa'', Some ''150'']]\<rparr>
   \<and> identify_table_type \<lparr>columns = [''Feria'', ''Valor''], rows = [[Some ''Divisa'', Some ''150'']]\<rparr>
       = Por_lugar
   \<and> classifier_spec \<lparr>columns = [''Feria'', ''Valor''], rows = [[Some ''Divisa'', Some ''150'']]\<rparr>
       = Por_lugar"
  using identify_table_type_keywords
    [of "\<lparr>columns = [''Feria'', ''Valor''], rows = [[Some ''Divisa'', Some ''150'']]\<rparr>"]
  by (simp add: classifier_spec_def combined_text_def classify_eval lower_eval)

text \<open>
  C4, as the claim states it, fails: for a table with no data rows the classifier does
  not answer general.
\<close>

theorem empty_table_counterexample:
  "identify_table_type \<lparr>columns = [''Lugar'', ''Precio''], rows = []\<rparr> \<noteq> General"
  by (simp add: identify_table_type_def df_empty_def)

text \<open>
  C4, amended. For every empty table (no data rows, or no columns) the classifier
  answers with the label unknown, a label of its own that is neither an error nor
  general; the normalizer handles a table so labelled with the generic strategy, which
  gives no records for a table with no data rows.
\<close>

theorem empty_table_unknown:
  "df_empty df \<Longrightarrow>
     identify_table_type df = Unknown
     \<and> normalize_item sr (it\<lparr>table_type := identify_table_type df, data := df\<rparr>)
         = normalize_general (it\<lparr>table_type := Unknown, data := df\<rparr>) df
     \<and> (rows df = [] \<longrightarrow>
          normalize_data sr [it\<lparr>table_type := identify_table_type df, data := df\<rparr>] = Inr [])"
  by (simp add: identify_table_type_def normalize_item_def normalize_data_def normalize_general_def)

theorem empty_table_unknown_witness:
  "df_empty \<lparr>columns = [''Lugar'', ''Precio''], rows = []\<rparr>
   \<and> identify_table_type \<lparr>columns = [''Lugar'', ''Precio''], rows = []\<rparr> = Unknown
   \<and> normalize_data (\<lambda>idx col cs. [])
       [\<lparr>pdf_path = ''a.pdf'', pdf_filename = ''a.pdf'', page = 1, table_num = 1,
         table_type = Unknown, date_from = None, date_to = None,
         data = \<lparr>columns = [''Lugar'', ''Precio''], rows = []\<rparr>\<rparr>] = Inr []"
  using empty_table_unknown
    [where df = "\<lparr>columns = [''Lugar'', ''Precio''], rows = []\<rparr>"
       and sr = "\<lambda>idx col cs. []"
       and it = "\<lparr>pdf_path = ''a.pdf'', pdf_filename = ''a.pdf'', page = 1, table_num = 1,
          table_type = Unknown, date_from = None, date_to = None,
          data = \<lparr>columns = [''Lugar'', ''Precio''], rows = []\<rparr>\<rparr>"]
  by (simp add: df_empty_def identify_table_type_def normalize_data_def normalize_item_def
      normalize_general_def)

section \<open>Facts about the emitted records\<close>

lemma round_half_even_le: "of_int (round_half_even x) \<le> x + 1 / (2 :: rat)"
proof -
  define f where "f = \<lfloor>x\<rfloor>"
  have fl: "of_int f \<le> x" by (simp add: f_def)
  show ?thesis
    unfolding round_half_even_def Let_def f_def [symmetric] using fl by auto
qed

lemma round_double_finite:
  assumes "0 \<le> a" and "a < 2 ^ 1024 - 2 ^ 970"
  shows "finite_float (round_double a)"
proof (cases "a = 0")
  case True
  then show ?thesis by (simp add: round_double_def)
next
  case False
  with assms have apos: "0 < a" by simp
  have "a < 2 ^ 1024" using assms(2) by simp
  then have "pow2 (ilog2 a) < pow2 1024"
    using ilog2_bounds [OF apos] by (simp add: pow2_def)
  then have le: "ilog2 a \<le> 1023" by (simp add: pow2_less_iff)
  define e where "e = max (ilog2 a - 52) (- 1074)"
  have "e \<le> 971" using le by (simp add: e_def)
  then have "pow2 e \<le> pow2 971" by (simp add: pow2_le_iff)
  then have pe: "pow2 e \<le> 2 ^ 971" by (simp add: pow2_def)
  have ppos: "0 < pow2 e" by (rule pow2_pos)
  have "of_int (round_half_even (a / pow2 e)) * pow2 e \<le> (a / pow2 e + 1 / 2) * pow2 e"
    using round_half_even_le [of "a / pow2 e"] ppos by (simp only: mult_le_cancel_right_pos)
  also have "\<dots> = a + pow2 e / 2" using ppos by (simp add: field_simps)
  also have "\<dots> \<le> a + 2 ^ 971 / 2" using pe by simp
  also have "\<dots> < 2 ^ 1024" using assms(2) by simp
  finally have "\<not> 2 ^ 1024 \<le> of_int (round_half_even (a / pow2 e)) * pow2 e" by simp
  then show ?thesis
    using apos by (simp add: round_double_def Let_def e_def [symmetric])
qed

lemma truthy_nonneg_positive: "truthy p \<Longrightarrow> nonneg p \<Longrightarrow> positive p"
  by (cases p) auto

lemma clean_price_Some:
  assumes "clean_price c = Some p"
  shows "\<exists>s. c = Some s \<and> p = round_double (of_nat (dec_val (digit_run s)))"
proof -
  from assms obtain s where c: "c = Some s" by (cases c) (simp_all add: clean_price_def)
  with assms show ?thesis by (auto simp: clean_price_eq split: if_splits)
qed

lemma cleaned_from_cell:
  assumes "p \<in> set (cleaned c)"
  shows "from_cell c p"
proof -
  from assms have p1: "clean_price c = Some p" and p2: "truthy p"
    by (auto simp: cleaned_def split: option.splits if_splits)
  from p1 obtain s where s: "c = Some s" "p = round_double (of_nat (dec_val (digit_run s)))"
    using clean_price_Some by blast
  have "nonneg p" unfolding s(2) by (rule round_double_nonneg) simp
  with p2 have pos: "positive p" by (rule truthy_nonneg_positive)
  have "finite_float p" if "dec_val (digit_run s) < 2 ^ 1024 - 2 ^ 970"
  proof -
    have "(of_nat (dec_val (digit_run s)) :: rat) < of_nat (2 ^ 1024 - 2 ^ 970)"
      using that by (simp only: of_nat_less_iff)
    also have "(of_nat (2 ^ 1024 - 2 ^ 970) :: rat) = 2 ^ 1024 - 2 ^ 970"
      by (simp add: of_nat_diff)
    finally show ?thesis unfolding s(2) by (intro round_double_finite) simp_all
  qed
  with pos p1 show ?thesis by (auto simp: s(1))
qed

lemma emit_cleaned:
  "(\<And>p. precio (mk p) = p) \<Longrightarrow> map precio (emit (clean_price c) mk) = cleaned c"
  by (simp add: emit_def cleaned_def split: option.splits)

lemma collect_Inr:
  "collect xs = Inr ys \<Longrightarrow> r \<in> set ys \<Longrightarrow> \<exists>zs. Inr zs \<in> set xs \<and> r \<in> set zs"
proof (induction xs arbitrary: ys)
  case Nil
  then show ?case by simp
next
  case (Cons x xs)
  then show ?case by (fastforce split: sum.splits)
qed

lemma collect_map_Inr:
  assumes "collect (map f xs) = Inr ys" and "r \<in> set ys"
  obtains x zs where "x \<in> set xs" and "f x = Inr zs" and "r \<in> set zs"
  using collect_Inr [OF assms] by force

text \<open>A loop that returns has appended, in order, what each of its iterations gave.\<close>

lemma collect_concat:
  assumes "collect (map f xs) = Inr ys"
    and "\<And>x zs. x \<in> set xs \<Longrightarrow> f x = Inr zs \<Longrightarrow> map h zs = g x"
  shows "map h ys = concat (map g xs)"
  using assms
proof (induction xs arbitrary: ys)
  case Nil
  then show ?case by simp
next
  case (Cons x xs)
  from Cons.prems(1) obtain zs ws where x: "f x = Inr zs" and xs: "collect (map f xs) = Inr ws"
    and ys: "ys = zs @ ws"
    by (auto split: sum.splits)
  have "map h zs = g x" using x by (intro Cons.prems(2)) simp_all
  moreover have "map h ws = concat (map g xs)"
    using xs by (rule Cons.IH) (simp add: Cons.prems(2))
  ultimately show ?case by (simp add: ys)
qed

lemma concat_map_if:
  "concat (map (\<lambda>x. if P x then g x else []) xs) = concat (map g (filter P xs))"
  by (induction xs) simp_all

lemma concat_map_concat:
  "concat (map (\<lambda>x. concat (map g (f x))) xs) = concat (map g (concat (map f xs)))"
  by (induction xs) simp_all

lemma cell_at_cases: "cell_at row i = None \<or> cell_at row i \<in> set row"
  by (simp add: cell_at_def)

lemma from_cell_at: "from_cell (cell_at row i) p \<Longrightarrow> \<exists>c\<in>set row. from_cell c p"
  using cell_at_cases [of row i] by auto

text \<open>
  When \<open>clean_price(row[col])\<close> returns, the label \<open>col\<close> is that of one column only, and
  the cell read is the one at the position of that column.
\<close>

lemma loc_clean_value:
  assumes "loc df row col = Inr v" and "clean_value v = Inr precio_v"
    and "i < length (columns df)" and "columns df ! i = col"
  shows "precio_v = clean_price (cell_at row i)"
proof -
  from assms(3,4) have mem: "i \<in> set (positions col (columns df))"
    by (simp add: positions_def)
  from assms(2) obtain c where v: "v = Scalar c" and pv: "precio_v = clean_price c"
    by (cases v) (simp_all add: clean_value_def)
  from assms(1) v obtain j where j: "positions col (columns df) = [j]" and c: "c = cell_at row j"
    by (auto simp: loc_def split: list.splits)
  from mem j have "i = j" by simp
  with c pv show ?thesis by simp
qed

lemma price_loop:
  assumes "collect (map (\<lambda>col.
        if P col
        then (case loc df row col of
                Inl e \<Rightarrow> Inl e
              | Inr v \<Rightarrow>
                  (case clean_value v of
                     Inl e \<Rightarrow> Inl e
                   | Inr precio_v \<Rightarrow> Inr (emit precio_v (mk col))))
        else Inr []) (columns df)) = Inr rs"
    and mk: "\<And>col p. precio (mk col p) = p"
  shows "map precio rs =
         concat (map cleaned (map (cell_at row)
           (filter (\<lambda>i. P (columns df ! i)) [0 ..< length (columns df)])))"
proof -
  let ?f = "\<lambda>col.
        if P col
        then (case loc df row col of
                Inl e \<Rightarrow> Inl e
              | Inr v \<Rightarrow>
                  (case clean_value v of
                     Inl e \<Rightarrow> Inl e
                   | Inr precio_v \<Rightarrow> Inr (emit precio_v (mk col))))
        else Inr []"
  let ?n = "length (columns df)"
  have "columns df = map (\<lambda>i. columns df ! i) [0 ..< ?n]" by (simp add: map_nth)
  then have "map ?f (columns df) = map ?f (map (\<lambda>i. columns df ! i) [0 ..< ?n])" by simp
  also have "\<dots> = map (\<lambda>i. ?f (columns df ! i)) [0 ..< ?n]" by (simp only: map_map o_def)
  finally have c: "collect (map (\<lambda>i. ?f (columns df ! i)) [0 ..< ?n]) = Inr rs"
    using assms(1) by simp
  have "map precio rs =
        concat (map (\<lambda>i. if P (columns df ! i) then cleaned (cell_at row i) else []) [0 ..< ?n])"
    using c
  proof (rule collect_concat)
    fix i zs
    assume i: "i \<in> set [0 ..< ?n]" and z: "?f (columns df ! i) = Inr zs"
    show "map precio zs = (if P (columns df ! i) then cleaned (cell_at row i) else [])"
    proof (cases "P (columns df ! i)")
      case False
      with z show ?thesis by simp
    next
      case True
      with z obtain v precio_v where l: "loc df row (columns df ! i) = Inr v"
        and cv: "clean_value v = Inr precio_v"
        and zs: "zs = emit precio_v (mk (columns df ! i))"
        by (auto split: sum.splits)
      from i have "i < ?n" by simp
      with l cv have "precio_v = clean_price (cell_at row i)"
        by (intro loc_clean_value [where col = "columns df ! i"]) simp_all
      with zs True show ?thesis by (simp add: emit_cleaned mk)
    qed
  qed
  then show ?thesis by (simp add: concat_map_if o_def)
qed

lemma por_lugar_row_cleaned:
  assumes "por_lugar_row sr it df idx row = Inr rs"
  shows "map precio rs =
         concat (map cleaned (map (cell_at row)
           (filter (\<lambda>i. any_kw_in [''precio'', ''valor'', ''b/'', ''$''] (lower (columns df ! i)))
              [0 ..< length (columns df)])))"
proof -
  from assms obtain lugar_v where
    "collect (map (\<lambda>col.
        if any_kw_in [''precio'', ''valor'', ''b/'', ''$''] (lower col)
        then (case loc df row col of
                Inl e \<Rightarrow> Inl e
              | Inr v \<Rightarrow>
                  (case clean_value v of
                     Inl e \<Rightarrow> Inl e
                   | Inr precio_v \<Rightarrow> Inr (emit precio_v ((\<lambda>col p.
                       \<lparr>fecha_desde = date_from it, fecha_hasta = date_to it,
                        lugar = strip lugar_v, categoria = col, precio = p,
                        fuente_pdf = pdf_filename it, tipo_tabla = table_type it\<rparr>) col))))
        else Inr []) (columns df)) = Inr rs"
    by (auto simp: por_lugar_row_def split: sum.splits)
  then show ?thesis by (rule price_loop) simp
qed

lemma por_categoria_row_cleaned:
  assumes "por_categoria_row sr it df idx row = Inr rs"
  shows "map precio rs =
         concat (map cleaned (map (cell_at row)
           (filter (\<lambda>i. columns df ! i \<noteq> hd (columns df)) [0 ..< length (columns df)])))"
proof -
  from assms obtain categoria_v where
    "collect (map (\<lambda>col.
        if col \<noteq> hd (columns df)
        then (case loc df row col of
                Inl e \<Rightarrow> Inl e
              | Inr v \<Rightarrow>
                  (case clean_value v of
                     Inl e \<Rightarrow> Inl e
                   | Inr precio_v \<Rightarrow> Inr (emit precio_v ((\<lambda>col p.
                       \<lparr>fecha_desde = date_from it, fecha_hasta = date_to it,
                        lugar = (if \<not> str_in ''precio'' (lower col) then col else ''General''),
                        categoria = strip categoria_v, precio = p,
                        fuente_pdf = pdf_filename it, tipo_tabla = table_type it\<rparr>) col))))
        else Inr []) (columns df)) = Inr rs"
    by (auto simp: por_categoria_row_def split: sum.splits)
  then show ?thesis by (rule price_loop) simp
qed

lemma iloc_Inr: "iloc df row i = Inr c \<Longrightarrow> c = cell_at row i"
  by (auto simp: iloc_def split: if_splits)

lemma map_fst_enumerate_tail: "map fst (enumerate_tail cols) = [1 ..< length cols]"
  by (simp add: enumerate_tail_def)

lemma general_row_cleaned:
  assumes "general_row it df row = Inr rs"
  shows "map precio rs = concat (map cleaned (map (cell_at row) [1 ..< length (columns df)]))"
proof -
  let ?f = "\<lambda>c0 (col_idx, col).
        case iloc df row col_idx of
          Inl e \<Rightarrow> Inl e
        | Inr c \<Rightarrow> Inr (emit (clean_price c) (\<lambda>p.
            \<lparr>fecha_desde = date_from it, fecha_hasta = date_to it,
             lugar = (if str_in ''lugar'' (lower (hd (columns df))) then strip (str_of c0) else col),
             categoria = (if str_in ''categ'' (lower (hd (columns df))) then strip (str_of c0) else col),
             precio = p,
             fuente_pdf = pdf_filename it, tipo_tabla = table_type it\<rparr>))"
  from assms obtain c0 where
    c: "collect (map (?f c0) (enumerate_tail (columns df))) = Inr rs"
    by (auto simp: general_row_def Let_def split: sum.splits)
  have "map precio rs =
        concat (map (\<lambda>x. cleaned (cell_at row (fst x))) (enumerate_tail (columns df)))"
    using c
  proof (rule collect_concat)
    fix x zs
    assume "?f c0 x = Inr zs"
    then obtain c where "iloc df row (fst x) = Inr c"
      and zs: "zs = emit (clean_price c) (\<lambda>p.
            \<lparr>fecha_desde = date_from it, fecha_hasta = date_to it,
             lugar = (if str_in ''lugar'' (lower (hd (columns df))) then strip (str_of c0)
                      else snd x),
             categoria = (if str_in ''categ'' (lower (hd (columns df))) then strip (str_of c0)
                          else snd x),
             precio = p,
             fuente_pdf = pdf_filename it, tipo_tabla = table_type it\<rparr>)"
      by (cases x) (auto split: sum.splits)
    then have "c = cell_at row (fst x)" by (auto dest: iloc_Inr)
    with zs show "map precio zs = cleaned (cell_at row (fst x))" by (simp add: emit_cleaned)
  qed
  also have "\<dots> = concat (map (\<lambda>i. cleaned (cell_at row i)) (map fst (enumerate_tail (columns df))))"
    by (simp only: map_map o_def)
  finally show ?thesis by (simp add: map_fst_enumerate_tail o_def)
qed

lemma rows_cleaned:
  assumes "collect (map f xs) = Inr rs"
    and "\<And>x zs. x \<in> set xs \<Longrightarrow> f x = Inr zs
           \<Longrightarrow> map precio zs = concat (map cleaned (map (cell_at (row_of x)) ps))"
    and "map row_of xs = rws"
  shows "map precio rs = concat (map cleaned (concat (map (\<lambda>row. map (cell_at row) ps) rws)))"
proof -
  have "map precio rs = concat (map (\<lambda>x. concat (map cleaned (map (cell_at (row_of x)) ps))) xs)"
    using assms(1) by (rule collect_concat) (rule assms(2))
  also have "\<dots> = concat (map (\<lambda>row. concat (map cleaned (map (cell_at row) ps))) (map row_of xs))"
    by (simp only: map_map o_def)
  also have "\<dots> = concat (map cleaned (concat (map (\<lambda>row. map (cell_at row) ps) rws)))"
    unfolding assms(3) by (rule concat_map_concat)
  finally show ?thesis .
qed

lemma normalize_item_cleaned:
  assumes "normalize_item sr it = Inr rs"
  shows "map precio rs = concat (map cleaned (source_cells it))"
proof -
  consider (lugar) "table_type it = Por_lugar"
      "collect (map (\<lambda>(idx, row). por_lugar_row sr it (data it) idx row)
         (enumerate 0 (rows (data it)))) = Inr rs"
    | (categoria) "table_type it \<noteq> Por_lugar" "table_type it = Por_categoria"
      "collect (map (\<lambda>(idx, row). por_categoria_row sr it (data it) idx row)
         (enumerate 0 (rows (data it)))) = Inr rs"
    | (general) "table_type it \<noteq> Por_lugar" "table_type it \<noteq> Por_categoria"
      "collect (map (general_row it (data it)) (rows (data it))) = Inr rs"
    using assms
    by (auto simp: normalize_item_def normalize_por_lugar_def normalize_por_categoria_def
        normalize_general_def split: if_splits)
  then show ?thesis
  proof cases
    case lugar
    have "map precio rs = concat (map cleaned (concat (map (\<lambda>row. map (cell_at row)
            (filter (\<lambda>i. any_kw_in [''precio'', ''valor'', ''b/'', ''$'']
                             (lower (columns (data it) ! i)))
               [0 ..< length (columns (data it))])) (rows (data it)))))"
      using lugar(2)
    proof (rule rows_cleaned [where row_of = snd])
      show "map snd (enumerate 0 (rows (data it))) = rows (data it)" by simp
    next
      fix x zs
      assume "(case x of (idx, row) \<Rightarrow> por_lugar_row sr it (data it) idx row) = Inr zs"
      then have "por_lugar_row sr it (data it) (fst x) (snd x) = Inr zs"
        by (simp add: case_prod_beta)
      then show "map precio zs = concat (map cleaned (map (cell_at (snd x))
            (filter (\<lambda>i. any_kw_in [''precio'', ''valor'', ''b/'', ''$'']
                             (lower (columns (data it) ! i)))
               [0 ..< length (columns (data it))])))"
        by (rule por_lugar_row_cleaned)
    qed
    with lugar(1) show ?thesis by (simp add: source_cells_def price_positions_def Let_def)
  next
    case categoria
    have "map precio rs = concat (map cleaned (concat (map (\<lambda>row. map (cell_at row)
            (filter (\<lambda>i. columns (data it) ! i \<noteq> hd (columns (data it)))
               [0 ..< length (columns (data it))])) (rows (data it)))))"
      using categoria(3)
    proof (rule rows_cleaned [where row_of = snd])
      show "map snd (enumerate 0 (rows (data it))) = rows (data it)" by simp
    next
      fix x zs
      assume "(case x of (idx, row) \<Rightarrow> por_categoria_row sr it (data it) idx row) = Inr zs"
      then have "por_categoria_row sr it (data it) (fst x) (snd x) = Inr zs"
        by (simp add: case_prod_beta)
      then show "map precio zs = concat (map cleaned (map (cell_at (snd x))
            (filter (\<lambda>i. columns (data it) ! i \<noteq> hd (columns (data it)))
               [0 ..< length (columns (data it))])))"
        by (rule por_categoria_row_cleaned)
    qed
    with categoria(1,2) show ?thesis by (simp add: source_cells_def price_positions_def Let_def)
  next
    case general
    have "map precio rs = concat (map cleaned (concat (map (\<lambda>row. map (cell_at row)
            [1 ..< length (columns (data it))]) (rows (data it)))))"
      using general(3)
    proof (rule rows_cleaned [where row_of = "\<lambda>row. row"])
      show "map (\<lambda>row. row) (rows (data it)) = rows (data it)" by simp
    next
      fix x zs
      assume "general_row it (data it) x = Inr zs"
      then show "map precio zs = concat (map cleaned (map (cell_at x)
            [1 ..< length (columns (data it))]))"
        by (rule general_row_cleaned)
    qed
    with general(1,2) show ?thesis by (simp add: source_cells_def price_positions_def Let_def)
  qed
qed

lemma source_cells_from_cell:
  assumes "p \<in> set (concat (map cleaned (source_cells it)))"
  shows "\<exists>row\<in>set (rows (data it)). \<exists>c\<in>set row. from_cell c p"
proof -
  from assms obtain row i where "row \<in> set (rows (data it))" and "p \<in> set (cleaned (cell_at row i))"
    by (auto simp: source_cells_def)
  then show ?thesis using cleaned_from_cell from_cell_at by blast
qed

lemma clean_price_N_D: "clean_price (Some ''N/D'') = None"
proof -
  have "digit_run ''N/D'' = []" by (simp add: digit_run_eval)
  then show ?thesis by (simp add: clean_price_eq)
qed

lemma from_cell_positive: "from_cell c p \<Longrightarrow> positive p"
  by (cases c) simp_all

lemma digit_run_digits: "list_all is_digit s \<Longrightarrow> digit_run s = s"
proof -
  assume a: "list_all is_digit s"
  then have d: "\<forall>c\<in>set s. is_digit c" by (simp add: list_all_iff)
  have "\<not> strip_cls c" if "is_digit c" for c
    using that by (auto simp: strip_cls_def is_digit_def is_space_def ord_def)
  with d have "filter (\<lambda>c. \<not> strip_cls c) s = s" by (simp add: filter_id_conv)
  moreover have "dropWhile (\<lambda>c. \<not> is_digit c) s = s" using d by (cases s) simp_all
  moreover have "takeWhile is_digit s = s" using d by simp
  ultimately show ?thesis by (simp add: digit_run_def re_sub_cls_def)
qed

lemma dec_val_snoc: "dec_val (s @ [c]) = 10 * dec_val s + digit_val c"
  by (simp add: dec_val_def)

lemma dec_val_nines: "dec_val (replicate n CHR ''9'') + 1 = 10 ^ n"
proof (induction n)
  case 0
  show ?case by (simp add: dec_val_def)
next
  case (Suc n)
  have "dec_val (replicate (Suc n) CHR ''9'') = 10 * dec_val (replicate n CHR ''9'') + 9"
    unfolding replicate_Suc [of n] replicate_append_same [symmetric]
    by (simp add: dec_val_snoc digit_val_def ord_def)
  with Suc show ?case by simp
qed

lemma clean_price_nines: "clean_price (Some nines) = Some PInf"
proof -
  have run: "digit_run nines = nines"
    by (rule digit_run_digits) (simp add: nines_def list_all_iff is_digit_def ord_def)
  have "dec_val nines + 1 = 10 ^ 309" unfolding nines_def by (rule dec_val_nines)
  then have "(2::nat) ^ 1024 \<le> dec_val nines" by simp
  then have "(of_nat (2 ^ 1024) :: rat) \<le> of_nat (dec_val nines)" by (simp only: of_nat_le_iff)
  then have "round_double (of_nat (dec_val nines)) = PInf"
    by (intro round_double_overflow) simp
  moreover have "nines \<noteq> []" by (simp add: nines_def)
  ultimately show ?thesis by (simp add: clean_price_eq run)
qed

text \<open>
  C7, as the claim states it, fails: a cell of 309 nines cleans to plus infinity, which
  is true in \<open>if precio:\<close>, so the record is emitted with a precio that is not finite.
\<close>

theorem emitted_precio_finite_counterexample:
  "normalize_data (\<lambda>idx col cs. [])
     [\<lparr>pdf_path = ''b.pdf'', pdf_filename = ''b.pdf'', page = 1, table_num = 1,
       table_type = Por_lugar, date_from = None, date_to = None,
       data = \<lparr>columns = [''Lugar'', ''Precio''], rows = [[Some ''Divisa'', Some nines]]\<rparr>\<rparr>]
     = Inr [\<lparr>fecha_desde = None, fecha_hasta = None, lugar = ''Divisa'', categoria = ''Precio'',
             precio = PInf, fuente_pdf = ''b.pdf'', tipo_tabla = Por_lugar\<rparr>]
   \<and> \<not> finite_float PInf"
  by (simp add: normalize_eval lower_eval clean_price_nines upt_rec)

text \<open>
  C7, amended. Whenever the normalization of a list of classified tables returns,
  whatever their strategies (por_lugar, por_categoria, generic), the precio values of
  the emitted records are, in order, the cleaned values of the cells the strategies read
  a price from, one record for each such cell whose cleaning succeeds with a value
  other than zero and no record for a cell whose cleaning fails or gives zero. So every
  emitted record has a positive precio that is the cleaned value of a cell, a string, of
  its table; the precio is finite when the first digit run of that cell is a number
  below \<open>2^1024 - 2^970\<close>, and plus infinity is possible above.
\<close>

theorem emitted_precio_positive:
  assumes "normalize_data sr tables_data = Inr recs"
  shows "map precio recs = concat (map cleaned (concat (map source_cells tables_data)))
         \<and> (\<forall>r\<in>set recs. positive (precio r)
              \<and> (\<exists>it\<in>set tables_data. \<exists>row\<in>set (rows (data it)). \<exists>c\<in>set row.
                    from_cell c (precio r)))"
proof (intro conjI ballI)
  have "map precio recs = concat (map (\<lambda>it. concat (map cleaned (source_cells it))) tables_data)"
    using assms unfolding normalize_data_def
    by (rule collect_concat) (rule normalize_item_cleaned)
  then show "map precio recs = concat (map cleaned (concat (map source_cells tables_data)))"
    by (simp only: concat_map_concat)
next
  fix r
  assume "r \<in> set recs"
  with assms obtain it zs where it: "it \<in> set tables_data"
    and "normalize_item sr it = Inr zs" and "r \<in> set zs"
    unfolding normalize_data_def by (rule collect_map_Inr)
  then have "map precio zs = concat (map cleaned (source_cells it))"
    by (intro normalize_item_cleaned)
  moreover have "precio r \<in> set (map precio zs)"
    using \<open>r \<in> set zs\<close> by (simp only: set_map image_eqI)
  ultimately have "precio r \<in> set (concat (map cleaned (source_cells it)))" by (simp only:)
  then obtain row c where rc: "row \<in> set (rows (data it))" "c \<in> set row" "from_cell c (precio r)"
    using source_cells_from_cell by blast
  then show "positive (precio r)" using from_cell_positive by blast
  from it rc show "\<exists>it\<in>set tables_data. \<exists>row\<in>set (rows (data it)). \<exists>c\<in>set row.
      from_cell c (precio r)" by blast
qed

theorem emitted_precio_positive_witness:
  "normalize_data (\<lambda>idx col cs. [])
     [\<lparr>pdf_path = ''a.pdf'', pdf_filename = ''a.pdf'', page = 1, table_num = 1,
       table_type = Por_lugar, date_from = None, date_to = None,
       data = \<lparr>columns = [''Lugar'', ''Precio Novillo''],
               rows = [[Some ''Divisa'', Some ''150.00''], [Some ''Chitre'', Some ''N/D'']]\<rparr>\<rparr>]
     = Inr [\<lparr>fecha_desde = None, fecha_hasta = None, lugar = ''Divisa'',
             categoria = ''Precio Novillo'', precio = Fin 15000, fuente_pdf = ''a.pdf'',
             tipo_tabla = Por_lugar\<rparr>]
   \<and> [Fin 15000] = concat (map cleaned (concat (map source_cells
       [\<lparr>pdf_path = ''a.pdf'', pdf_filename = ''a.pdf'', page = 1, table_num = 1,
         table_type = Por_lugar, date_from = None, date_to = None,
         data = \<lparr>columns = [''Lugar'', ''Precio Novillo''],
                 rows = [[Some ''Divisa'', Some ''150.00''], [Some ''Chitre'', Some ''N/D'']]\<rparr>\<rparr>])))
   \<and> source_cells
       \<lparr>pdf_path = ''a.pdf'', pdf_filename = ''a.pdf'', page = 1, table_num = 1,
         table_type = Por_lugar, date_from = None, date_to = None,
         data = \<lparr>columns = [''Lugar'', ''Precio Novillo''],
                 rows = [[Some ''Divisa'', Some ''150.00''], [Some ''Chitre'', Some ''N/D'']]\<rparr>\<rparr>
       = [Some ''150.00'', Some ''N/D'']
   \<and> positive (Fin 15000)"
proof -
  let ?it = "\<lparr>pdf_path = ''a.pdf'', pdf_filename = ''a.pdf'', page = 1, table_num = 1,
              table_type = Por_lugar, date_from = None, date_to = None,
              data = \<lparr>columns = [''Lugar'', ''Precio Novillo''],
                      rows = [[Some ''Divisa'', Some ''150.00''], [Some ''Chitre'', Some ''N/D'']]\<rparr>\<rparr>"
  let ?r = "\<lparr>fecha_desde = None, fecha_hasta = None, lugar = ''Divisa'',
             categoria = ''Precio Novillo'', precio = Fin 15000, fuente_pdf = ''a.pdf'',
             tipo_tabla = Por_lugar\<rparr>"
  have h: "normalize_data (\<lambda>idx col cs. []) [?it] = Inr [?r]"
    by (simp add: normalize_eval lower_eval clean_price_150_00 clean_price_N_D upt_rec)
  note t = emitted_precio_positive [OF h]
  from t have "map precio [?r] = concat (map cleaned (concat (map source_cells [?it])))"
    by (rule conjunct1)
  then have a: "[Fin 15000] = concat (map cleaned (concat (map source_cells [?it])))"
    by (simp only: list.map price_record.select_convs)
  from t have "positive (precio ?r)" by simp
  then have b: "positive (Fin 15000)" by (simp only: price_record.select_convs)
  have u: "[0 ..< length [''Lugar'', ''Precio Novillo'']] = [0, 1]" by (simp add: upt_rec)
  have k1: "\<not> any_kw_in [''precio'', ''valor'', ''b/'', ''$''] (lower ''Lugar'')"
    by (simp add: any_kw_in_def lower_eval)
  have k2: "any_kw_in [''precio'', ''valor'', ''b/'', ''$''] (lower ''Precio Novillo'')"
    by (simp add: any_kw_in_def lower_eval)
  have pp: "price_positions ?it = [1]" by (simp add: price_positions_def Let_def u k1 k2)
  have c: "source_cells ?it = [Some ''150.00'', Some ''N/D'']"
    unfolding source_cells_def pp by (simp add: cell_at_def)
  from h a b c show ?thesis by (intro conjI)
qed
section \<open>Facts about the seasonal analysis\<close>

lemma mset_eq_sort: "mset xs = mset ys \<Longrightarrow> sort xs = sort (ys :: pyfloat list)"
  by (metis sorted_list_of_multiset_mset)

lemma mset_eq_median: "mset xs = mset ys \<Longrightarrow> median xs = median ys"
  by (simp add: median_def mset_eq_sort [of xs ys])

lemma mset_eq_Nil: "mset xs = mset ys \<Longrightarrow> xs = [] \<longleftrightarrow> ys = []"
  using mset_eq_length [of xs ys] by auto

lemma mset_eq_minimo: "mset xs = mset ys \<Longrightarrow> minimo xs = minimo ys"
  by (simp add: minimo_def mset_eq_setD [of xs ys] mset_eq_Nil [of xs ys])

lemma mset_eq_maximo: "mset xs = mset ys \<Longrightarrow> maximo xs = maximo ys"
  by (simp add: maximo_def mset_eq_setD [of xs ys] mset_eq_Nil [of xs ys])

lemma mset_eq_grupo: "mset df = mset df' \<Longrightarrow> mset (grupo df m) = mset (grupo df' m)"
  by (simp add: grupo_def)

lemma mset_eq_meses:
  assumes "mset df = mset df'"
  shows "sorted_list_of_set (set (map fst df)) = sorted_list_of_set (set (map fst df'))"
proof -
  from assms have "mset (map fst df) = mset (map fst df')" by simp
  then have "set (map fst df) = set (map fst df')" by (rule mset_eq_setD)
  then show ?thesis by (simp only:)
qed

lemma mset_eq_sum_list:
  "mset xs = mset ys \<Longrightarrow> sum_list (map f xs) = (sum_list (map f ys) :: rat)"
  by (metis mset_map sum_mset_sum_list)

lemma analizar_por_mes_sorted: "sorted_wrt (<) (map mes (analizar_por_mes desv df))"
proof -
  have "map mes (analizar_por_mes desv df) = sorted_list_of_set (set (map fst df))"
    by (simp add: analizar_por_mes_def stats_of_def comp_def)
  then show ?thesis by (simp add: strict_sorted_iff del: set_map)
qed

lemma tabla_real_mes: "tabla_real rs = Some t \<Longrightarrow> map mes t = map mes rs"
proof (induction rs arbitrary: t)
  case Nil
  then show ?case by simp
next
  case (Cons r rs)
  then show ?case by (auto simp: fila_real_def split: option.splits)
qed

lemma tabla_real_sorted:
  "tabla_real (analizar_por_mes desv df) = Some t \<Longrightarrow> sorted_wrt (<) (map mes t)"
  using analizar_por_mes_sorted [of desv df] by (simp add: tabla_real_mes)

subsection \<open>Sums that are exact\<close>

lemma entero_nat: "entero x \<Longrightarrow> \<exists>k. x = Fin (of_nat k)"
proof (cases x)
  case (Fin a)
  assume "entero x"
  with Fin have "0 \<le> a" and "of_int \<lfloor>a\<rfloor> = a" by simp_all
  then have "a = of_nat (nat \<lfloor>a\<rfloor>)" by (metis floor_of_int of_nat_nat zero_le_floor)
  with Fin show ?thesis by blast
qed simp_all

lemma entero_of_nat: "entero (Fin (of_nat k))"
  by simp

lemma round_double_of_nat:
  assumes "(of_nat k :: rat) < 2 ^ 53"
  shows "round_double (of_nat k) = Fin (of_nat k)"
proof -
  have "(of_nat k :: rat) < of_nat (2 ^ 53)" using assms by simp
  then have "k < 2 ^ 53" by (simp only: of_nat_less_iff)
  then show ?thesis by (rule round_double_exact)
qed

lemma sum_enteros_nonneg: "list_all entero xs \<Longrightarrow> 0 \<le> sum_list (map fval xs)"
proof (induction xs)
  case Nil
  show ?case by simp
next
  case (Cons x xs)
  then obtain k where "x = Fin (of_nat k)" using entero_nat by auto
  with Cons show ?case by simp
qed

text \<open>On such prices the compensated summation makes no rounding error.\<close>

lemma kahan_enteros:
  assumes "list_all entero xs" and "fval (Fin (of_nat j)) + sum_list (map fval xs) < 2 ^ 53"
  shows "kahan (Fin (of_nat j)) (Fin 0) xs = Fin (of_nat j + sum_list (map fval xs))"
  using assms
proof (induction xs arbitrary: j)
  case Nil
  show ?case by simp
next
  case (Cons x xs)
  from Cons.prems(1) obtain k where x: "x = Fin (of_nat k)" using entero_nat by auto
  from Cons.prems(1) have rest: "0 \<le> sum_list (map fval xs)" by (simp add: sum_enteros_nonneg)
  from Cons.prems(2) have tot: "(of_nat (j + k) :: rat) + sum_list (map fval xs) < 2 ^ 53"
    by (simp add: x add.assoc)
  with rest have jk: "(of_nat (j + k) :: rat) < 2 ^ 53" by linarith
  then have k: "(of_nat k :: rat) < 2 ^ 53" by simp
  have y: "fsub x (Fin 0) = Fin (of_nat k)"
    using round_double_of_nat [OF k] by (simp add: x fsub_def)
  have t: "fadd (Fin (of_nat j)) (Fin (of_nat k)) = Fin (of_nat (j + k))"
    using round_double_of_nat [OF jk] by simp
  have u: "fsub (Fin (of_nat (j + k))) (Fin (of_nat j)) = Fin (of_nat k)"
    using round_double_of_nat [OF k] by (simp add: fsub_def)
  have c: "fsub (Fin (of_nat k)) (Fin (of_nat k)) = Fin 0"
    by (simp add: fsub_def round_double_def)
  have "kahan (Fin (of_nat j)) (Fin 0) (x # xs) = kahan (Fin (of_nat (j + k))) (Fin 0) xs"
    by (simp only: kahan.simps Let_def y t u c pyfloat.distinct if_False)
  also have "\<dots> = Fin (of_nat (j + k) + sum_list (map fval xs))"
    using Cons.prems(1) tot by (intro Cons.IH) simp_all
  finally show ?case by (simp add: x add.assoc)
qed

lemma mean_enteros:
  assumes "list_all entero xs" and "sum_list (map fval xs) < 2 ^ 53"
  shows "mean xs =
         (if xs = [] then NaN
          else fdiv (Fin (sum_list (map fval xs))) (round_double (of_nat (length xs))))"
  using kahan_enteros [of xs 0] assms by (simp add: mean_def)

lemma sum_list_filter_le:
  fixes f :: "'a \<Rightarrow> rat"
  assumes "\<forall>x\<in>set xs. 0 \<le> f x"
  shows "sum_list (map f (filter P xs)) \<le> sum_list (map f xs)"
  using assms by (induction xs) (auto intro: add_increasing)

lemma entero_fval_nonneg: "entero x \<Longrightarrow> 0 \<le> fval x"
  by (cases x) simp_all

lemma grupo_enteros:
  assumes "precios_enteros df"
  shows "list_all entero (grupo df m) \<and> sum_list (map fval (grupo df m)) < 2 ^ 53"
proof -
  from assms have all: "\<forall>r\<in>set df. entero (snd r)"
    and tot: "sum_list (map (\<lambda>r. fval (snd r)) df) < 2 ^ 53"
    by (simp_all add: precios_enteros_def list_all_iff)
  have g: "grupo df m = map snd (filter (\<lambda>r. fst r = m \<and> snd r \<noteq> NaN) df)"
    by (simp add: grupo_def filter_map o_def conj_commute)
  have "sum_list (map fval (grupo df m))
        = sum_list (map (\<lambda>r. fval (snd r)) (filter (\<lambda>r. fst r = m \<and> snd r \<noteq> NaN) df))"
    by (simp add: g o_def)
  also have "\<dots> \<le> sum_list (map (\<lambda>r. fval (snd r)) df)"
    using all by (intro sum_list_filter_le) (simp add: entero_fval_nonneg)
  finally have "sum_list (map fval (grupo df m)) < 2 ^ 53" using tot by simp
  moreover have "list_all entero (grupo df m)" using all by (auto simp: g list_all_iff)
  ultimately show ?thesis by simp
qed

lemma mset_eq_precios_enteros:
  assumes "mset df = mset df'"
  shows "precios_enteros df = precios_enteros df'"
  by (simp add: precios_enteros_def list_all_iff mset_eq_setD [OF assms]
      mset_eq_sum_list [OF assms])

lemma mset_eq_mean_enteros:
  assumes "mset df = mset df'" and "precios_enteros df"
  shows "mean (grupo df m) = mean (grupo df' m)"
proof -
  have e': "precios_enteros df'" using mset_eq_precios_enteros [OF assms(1)] assms(2) by simp
  have m: "mset (grupo df m) = mset (grupo df' m)" using assms(1) by (rule mset_eq_grupo)
  have "mset (map fval (grupo df m)) = mset (map fval (grupo df' m))" using m by simp
  then have s: "sum_list (map fval (grupo df m)) = sum_list (map fval (grupo df' m))"
    by (metis sum_mset_sum_list)
  show ?thesis
    using grupo_enteros [OF assms(2), of m] grupo_enteros [OF e', of m]
    by (simp add: mean_enteros s mset_eq_length [OF m] mset_eq_Nil [OF m])
qed

subsection \<open>The arithmetic of floats on given numbers\<close>

lemma ilog2_eqI:
  assumes "pow2 k \<le> a" and "a < pow2 (k + 1)"
  shows "ilog2 a = k"
proof -
  have "0 < a" using pow2_pos [of k] assms(1) by simp
  then have b: "pow2 (ilog2 a) \<le> a" "a < pow2 (ilog2 a + 1)" using ilog2_bounds by simp_all
  from assms(1) b(2) have "pow2 k < pow2 (ilog2 a + 1)" by simp
  then have "k < ilog2 a + 1" by (simp only: pow2_less_iff)
  moreover from b(1) assms(2) have "pow2 (ilog2 a) < pow2 (k + 1)" by simp
  then have "ilog2 a < k + 1" by (simp only: pow2_less_iff)
  ultimately show ?thesis by simp
qed

lemma round_half_even_eqI:
  fixes x :: rat
  assumes "\<bar>x - of_int m\<bar> < 1 / 2"
  shows "round_half_even x = m"
proof (cases "of_int m \<le> x")
  case True
  with assms have "\<lfloor>x\<rfloor> = m" by (intro floor_unique) simp_all
  with assms True show ?thesis by (simp add: round_half_even_def Let_def)
next
  case False
  with assms have f: "\<lfloor>x\<rfloor> = m - 1" by (intro floor_unique) simp_all
  have "1 / 2 < x - of_int (m - 1)" using assms False by simp
  then show ?thesis unfolding round_half_even_def Let_def f by simp
qed

lemma round_half_even_tieI:
  fixes x :: rat
  assumes "\<bar>x - of_int m\<bar> = 1 / 2" and "even m"
  shows "round_half_even x = m"
proof (cases "of_int m \<le> x")
  case True
  with assms(1) have x: "x = of_int m + 1 / 2" by simp
  then have "\<lfloor>x\<rfloor> = m" by (intro floor_unique) simp_all
  with x assms(2) show ?thesis by (simp add: round_half_even_def Let_def)
next
  case False
  with assms(1) have x: "x = of_int m - 1 / 2" by simp
  then have f: "\<lfloor>x\<rfloor> = m - 1" by (intro floor_unique) simp_all
  have "x - of_int (m - 1) = 1 / 2" using x by simp
  then show ?thesis unfolding round_half_even_def Let_def f using assms(2) by simp
qed

text \<open>
  The rounding of a positive value \<open>v\<close> of binary exponent \<open>e + 52\<close>, in the range of the
  normal numbers: the multiple \<open>m * 2^e\<close> when \<open>v / 2^e\<close> rounds to \<open>m\<close>.
\<close>

lemma round_double_rounded:
  assumes "pow2 (e + 52) \<le> v" and "v < pow2 (e + 53)" and "- 1074 \<le> e" and "e \<le> 970"
    and "round_half_even (v / pow2 e) = m" and "c = of_int m * pow2 e"
  shows "round_double v = Fin c"
proof -
  have vpos: "0 < v" using pow2_pos [of "e + 52"] assms(1) by simp
  have "ilog2 v = e + 52" using assms(1,2) by (intro ilog2_eqI) (simp_all add: add.assoc)
  then have emax: "max (ilog2 v - 52) (- 1074) = e" using assms(3) by simp
  have pe: "0 < pow2 e" by (rule pow2_pos)
  have "v / pow2 e < pow2 53"
    using assms(2) pe by (simp add: pow2_add [of e 53] pos_divide_less_eq mult.commute)
  moreover have "pow2 53 = 2 ^ 53" by (simp add: pow2_def)
  ultimately have "v / pow2 e < 2 ^ 53" by (simp only:)
  moreover have "of_int m \<le> v / pow2 e + 1 / 2"
    using round_half_even_le [of "v / pow2 e"] by (simp only: assms(5))
  ultimately have "(of_int m :: rat) < 2 ^ 53 + 1" by linarith
  then have "(of_int m :: rat) < of_int (2 ^ 53 + 1)" by simp
  then have "m < 2 ^ 53 + 1" by (simp only: of_int_less_iff)
  then have "m \<le> 2 ^ 53" by simp
  then have "(of_int m :: rat) \<le> of_int (2 ^ 53)" by (simp only: of_int_le_iff)
  then have "(of_int m :: rat) \<le> pow2 53" by (simp add: pow2_def)
  then have "of_int m * pow2 e \<le> pow2 53 * pow2 e" using pe by (simp only: mult_le_cancel_right_pos)
  also have "\<dots> = pow2 (e + 53)" by (simp add: pow2_add)
  also have "\<dots> \<le> pow2 1023" using assms(4) by (simp only: pow2_le_iff)
  also have "\<dots> < 2 ^ 1024" by (simp add: pow2_def)
  finally have "\<not> 2 ^ 1024 \<le> of_int m * pow2 e" by simp
  then show ?thesis using vpos by (simp add: round_double_def Let_def emax assms(5,6))
qed

lemma round_double_eqI:
  assumes "pow2 (e + 52) \<le> v" and "v < pow2 (e + 53)" and "- 1074 \<le> e" and "e \<le> 970"
    and "\<bar>v / pow2 e - of_int m\<bar> < 1 / 2" and "c = of_int m * pow2 e"
  shows "round_double v = Fin c"
  using assms(1-4) round_half_even_eqI [OF assms(5)] assms(6) by (rule round_double_rounded)

lemma round_double_tieI:
  assumes "pow2 (e + 52) \<le> v" and "v < pow2 (e + 53)" and "- 1074 \<le> e" and "e \<le> 970"
    and "\<bar>v / pow2 e - of_int m\<bar> = 1 / 2 \<and> even m" and "c = of_int m * pow2 e"
  shows "round_double v = Fin c"
proof -
  from assms(5) have "round_half_even (v / pow2 e) = m" by (intro round_half_even_tieI) simp_all
  with assms(1-4) show ?thesis using assms(6) by (rule round_double_rounded)
qed

lemma round_double_minus: "round_double (- v) = fneg (round_double v)"
  by (cases "v = 0") (auto simp: round_double_def Let_def)

lemma round_double_negI:
  assumes "round_double (- v) = Fin c'" and "c = - c'"
  shows "round_double v = Fin c"
proof -
  from assms(1) have "fneg (round_double v) = Fin c'" by (simp only: round_double_minus)
  then show ?thesis using assms(2) by (cases "round_double v") simp_all
qed

lemma round_double_eqI_neg:
  assumes "pow2 (e + 52) \<le> - v" and "- v < pow2 (e + 53)" and "- 1074 \<le> e" and "e \<le> 970"
    and "\<bar>- v / pow2 e - of_int m\<bar> < 1 / 2" and "c = - (of_int m * pow2 e)"
  shows "round_double v = Fin c"
proof (rule round_double_negI)
  show "round_double (- v) = Fin (of_int m * pow2 e)"
    using assms(1-5) by (intro round_double_eqI [where m = m and e = e]) simp_all
qed (rule assms(6))

lemma round_double_tieI_neg:
  assumes "pow2 (e + 52) \<le> - v" and "- v < pow2 (e + 53)" and "- 1074 \<le> e" and "e \<le> 970"
    and "\<bar>- v / pow2 e - of_int m\<bar> = 1 / 2 \<and> even m" and "c = - (of_int m * pow2 e)"
  shows "round_double v = Fin c"
proof (rule round_double_negI)
  show "round_double (- v) = Fin (of_int m * pow2 e)"
    using assms(1-5) by (intro round_double_tieI [where m = m and e = e]) simp_all
qed (rule assms(6))

lemma round_double_zeroI: "v = 0 \<Longrightarrow> round_double v = Fin 0"
  by (simp add: round_double_def)

lemma fadd_eqI: "round_double (a + b) = Fin c \<Longrightarrow> fadd (Fin a) (Fin b) = Fin c"
  by simp

lemma fsub_eqI: "round_double (a - b) = Fin c \<Longrightarrow> fsub (Fin a) (Fin b) = Fin c"
  by (simp add: fsub_def)

lemma fmul_eqI: "round_double (a * b) = Fin c \<Longrightarrow> fmul (Fin a) (Fin b) = Fin c"
  by simp

lemma fdiv_eqI: "b \<noteq> 0 \<Longrightarrow> round_double (a / b) = Fin c \<Longrightarrow> fdiv (Fin a) (Fin b) = Fin c"
  by simp

lemma rint_eqI: "\<bar>a - of_int m\<bar> < 1 / 2 \<Longrightarrow> c = of_int m \<Longrightarrow> rint (Fin a) = Fin c"
  by (simp add: round_half_even_eqI)


text \<open>
  The numbers that 0.59, 0.99, 1.67, 1.73 and 1.24 denote, and the operations of
  \<open>analizar_por_mes\<close> on the four prices in two orders.
\<close>

lemma double_0_59: "round_double (59 / 100) = Fin (5314247560297185 / 9007199254740992)"
  by (rule round_double_eqI [where m = 5314247560297185 and e = "-53"])
    (simp_all add: pow2_def)

lemma double_0_99: "round_double (99 / 100) = Fin (4458563631096791 / 4503599627370496)"
  by (rule round_double_eqI [where m = 8917127262193582 and e = "-53"])
    (simp_all add: pow2_def)

lemma double_1_67: "round_double (167 / 100) = Fin (940126422213591 / 562949953421312)"
  by (rule round_double_eqI [where m = 7521011377708728 and e = "-52"])
    (simp_all add: pow2_def)

lemma double_1_73: "round_double (173 / 100) = Fin (3895613677675479 / 2251799813685248)"
  by (rule round_double_eqI [where m = 7791227355350958 and e = "-52"])
    (simp_all add: pow2_def)

lemma double_1_24: "round_double (124 / 100) = Fin (5584463537939415 / 4503599627370496)"
  by (rule round_double_eqI [where m = 5584463537939415 and e = "-52"])
    (simp_all add: pow2_def)

lemma fsub_1: "fsub (Fin (5314247560297185 / 9007199254740992)) (Fin 0) = Fin (5314247560297185 / 9007199254740992)"
  by (rule fsub_eqI, rule round_double_eqI [where m = 5314247560297185 and e = "-53"])
    (simp_all add: pow2_def)

lemma fadd_1: "fadd (Fin 0) (Fin (5314247560297185 / 9007199254740992)) = Fin (5314247560297185 / 9007199254740992)"
  by (rule fadd_eqI, rule round_double_eqI [where m = 5314247560297185 and e = "-53"])
    (simp_all add: pow2_def)

lemma fsub_2: "fsub (Fin (5314247560297185 / 9007199254740992)) (Fin (5314247560297185 / 9007199254740992)) = Fin 0"
  by (rule fsub_eqI, rule round_double_zeroI) simp

lemma fsub_3: "fsub (Fin (4458563631096791 / 4503599627370496)) (Fin 0) = Fin (4458563631096791 / 4503599627370496)"
  by (rule fsub_eqI, rule round_double_eqI [where m = 8917127262193582 and e = "-53"])
    (simp_all add: pow2_def)

lemma fadd_2: "fadd (Fin (5314247560297185 / 9007199254740992)) (Fin (4458563631096791 / 4503599627370496)) = Fin (889460926405673 / 562949953421312)"
  by (rule fadd_eqI, rule round_double_tieI [where m = 7115687411245384 and e = "-52"])
    (simp_all add: pow2_def)

lemma fsub_4: "fsub (Fin (889460926405673 / 562949953421312)) (Fin (5314247560297185 / 9007199254740992)) = Fin (8917127262193583 / 9007199254740992)"
  by (rule fsub_eqI, rule round_double_eqI [where m = 8917127262193583 and e = "-53"])
    (simp_all add: pow2_def)

lemma fsub_5: "fsub (Fin (8917127262193583 / 9007199254740992)) (Fin (4458563631096791 / 4503599627370496)) = Fin (1 / 9007199254740992)"
  by (rule fsub_eqI, rule round_double_eqI [where m = 4503599627370496 and e = "-105"])
    (simp_all add: pow2_def)

lemma fsub_6: "fsub (Fin (940126422213591 / 562949953421312)) (Fin (1 / 9007199254740992)) = Fin (940126422213591 / 562949953421312)"
  by (rule fsub_eqI, rule round_double_tieI [where m = 7521011377708728 and e = "-52"])
    (simp_all add: pow2_def)

lemma fadd_3: "fadd (Fin (889460926405673 / 562949953421312)) (Fin (940126422213591 / 562949953421312)) = Fin (13 / 4)"
  by (rule fadd_eqI, rule round_double_eqI [where m = 7318349394477056 and e = "-51"])
    (simp_all add: pow2_def)

lemma fsub_7: "fsub (Fin (13 / 4)) (Fin (889460926405673 / 562949953421312)) = Fin (940126422213591 / 562949953421312)"
  by (rule fsub_eqI, rule round_double_eqI [where m = 7521011377708728 and e = "-52"])
    (simp_all add: pow2_def)

lemma fsub_8: "fsub (Fin (940126422213591 / 562949953421312)) (Fin (940126422213591 / 562949953421312)) = Fin 0"
  by (rule fsub_eqI, rule round_double_zeroI) simp

lemma fsub_9: "fsub (Fin (3895613677675479 / 2251799813685248)) (Fin 0) = Fin (3895613677675479 / 2251799813685248)"
  by (rule fsub_eqI, rule round_double_eqI [where m = 7791227355350958 and e = "-52"])
    (simp_all add: pow2_def)

lemma fadd_4: "fadd (Fin (13 / 4)) (Fin (3895613677675479 / 2251799813685248)) = Fin (1401745384019067 / 281474976710656)"
  by (rule fadd_eqI, rule round_double_tieI [where m = 5606981536076268 and e = "-50"])
    (simp_all add: pow2_def)

lemma fsub_10: "fsub (Fin (1401745384019067 / 281474976710656)) (Fin (13 / 4)) = Fin (486951709709435 / 281474976710656)"
  by (rule fsub_eqI, rule round_double_eqI [where m = 7791227355350960 and e = "-52"])
    (simp_all add: pow2_def)

lemma fsub_11: "fsub (Fin (486951709709435 / 281474976710656)) (Fin (3895613677675479 / 2251799813685248)) = Fin (1 / 2251799813685248)"
  by (rule fsub_eqI, rule round_double_eqI [where m = 4503599627370496 and e = "-103"])
    (simp_all add: pow2_def)

lemma fdiv_1: "fdiv (Fin (1401745384019067 / 281474976710656)) (Fin 4) = Fin (1401745384019067 / 1125899906842624)"
  by (rule fdiv_eqI, simp, rule round_double_eqI [where m = 5606981536076268 and e = "-52"])
    (simp_all add: pow2_def)

lemma fmul_1: "fmul (Fin (1401745384019067 / 1125899906842624)) (Fin 100) = Fin (8760908650119169 / 70368744177664)"
  by (rule fmul_eqI, rule round_double_eqI [where m = 8760908650119169 and e = "-46"])
    (simp_all add: pow2_def)

lemma fdiv_2: "fdiv (Fin 125) (Fin 100) = Fin (5 / 4)"
  by (rule fdiv_eqI, simp, rule round_double_eqI [where m = 5629499534213120 and e = "-52"])
    (simp_all add: pow2_def)

lemma fadd_5: "fadd (Fin (5314247560297185 / 9007199254740992)) (Fin (3895613677675479 / 2251799813685248)) = Fin (5224175567749775 / 2251799813685248)"
  by (rule fadd_eqI, rule round_double_eqI [where m = 5224175567749775 and e = "-51"])
    (simp_all add: pow2_def)

lemma fsub_12: "fsub (Fin (5224175567749775 / 2251799813685248)) (Fin (5314247560297185 / 9007199254740992)) = Fin (3895613677675479 / 2251799813685248)"
  by (rule fsub_eqI, rule round_double_tieI [where m = 7791227355350958 and e = "-52"])
    (simp_all add: pow2_def)

lemma fsub_13: "fsub (Fin (3895613677675479 / 2251799813685248)) (Fin (3895613677675479 / 2251799813685248)) = Fin 0"
  by (rule fsub_eqI, rule round_double_zeroI) simp

lemma fadd_6: "fadd (Fin (5224175567749775 / 2251799813685248)) (Fin (4458563631096791 / 4503599627370496)) = Fin (3726728691649085 / 1125899906842624)"
  by (rule fadd_eqI, rule round_double_tieI [where m = 7453457383298170 and e = "-51"])
    (simp_all add: pow2_def)

lemma fsub_14: "fsub (Fin (3726728691649085 / 1125899906842624)) (Fin (5224175567749775 / 2251799813685248)) = Fin (2229281815548395 / 2251799813685248)"
  by (rule fsub_eqI, rule round_double_eqI [where m = 8917127262193580 and e = "-53"])
    (simp_all add: pow2_def)

lemma fsub_15: "fsub (Fin (2229281815548395 / 2251799813685248)) (Fin (4458563631096791 / 4503599627370496)) = Fin (- (1 / 4503599627370496))"
  by (rule fsub_eqI, rule round_double_eqI_neg [where m = 4503599627370496 and e = "-104"])
    (simp_all add: pow2_def)

lemma fsub_16: "fsub (Fin (940126422213591 / 562949953421312)) (Fin (- (1 / 4503599627370496))) = Fin (7521011377708729 / 4503599627370496)"
  by (rule fsub_eqI, rule round_double_eqI [where m = 7521011377708729 and e = "-52"])
    (simp_all add: pow2_def)

lemma fadd_7: "fadd (Fin (3726728691649085 / 1125899906842624)) (Fin (7521011377708729 / 4503599627370496)) = Fin (5606981536076267 / 1125899906842624)"
  by (rule fadd_eqI, rule round_double_eqI [where m = 5606981536076267 and e = "-50"])
    (simp_all add: pow2_def)

lemma fsub_17: "fsub (Fin (5606981536076267 / 1125899906842624)) (Fin (3726728691649085 / 1125899906842624)) = Fin (940126422213591 / 562949953421312)"
  by (rule fsub_eqI, rule round_double_eqI [where m = 7521011377708728 and e = "-52"])
    (simp_all add: pow2_def)

lemma fsub_18: "fsub (Fin (940126422213591 / 562949953421312)) (Fin (7521011377708729 / 4503599627370496)) = Fin (- (1 / 4503599627370496))"
  by (rule fsub_eqI, rule round_double_eqI_neg [where m = 4503599627370496 and e = "-104"])
    (simp_all add: pow2_def)

lemma fdiv_3: "fdiv (Fin (5606981536076267 / 1125899906842624)) (Fin 4) = Fin (5606981536076267 / 4503599627370496)"
  by (rule fdiv_eqI, simp, rule round_double_eqI [where m = 5606981536076267 and e = "-52"])
    (simp_all add: pow2_def)

lemma fmul_2: "fmul (Fin (5606981536076267 / 4503599627370496)) (Fin 100) = Fin (8760908650119167 / 70368744177664)"
  by (rule fmul_eqI, rule round_double_eqI [where m = 8760908650119167 and e = "-46"])
    (simp_all add: pow2_def)

lemma fdiv_4: "fdiv (Fin 124) (Fin 100) = Fin (5584463537939415 / 4503599627370496)"
  by (rule fdiv_eqI, simp, rule round_double_eqI [where m = 5584463537939415 and e = "-52"])
    (simp_all add: pow2_def)

lemma rint_1: "rint (Fin (8760908650119169 / 70368744177664)) = Fin 125"
  by (rule rint_eqI [where m = 125]) simp_all

lemma rint_2: "rint (Fin (8760908650119167 / 70368744177664)) = Fin 124"
  by (rule rint_eqI [where m = 124]) simp_all

lemma kahan_first_order:
  "kahan (Fin 0) (Fin 0)
      [Fin (5314247560297185 / 9007199254740992),
       Fin (4458563631096791 / 4503599627370496),
       Fin (940126422213591 / 562949953421312),
       Fin (3895613677675479 / 2251799813685248)]
     = Fin (1401745384019067 / 281474976710656)"
  by (simp only: kahan.simps Let_def pyfloat.distinct if_False
      fsub_1 fadd_1 fsub_2 fsub_3 fadd_2 fsub_4 fsub_5 fsub_6
      fadd_3 fsub_7 fsub_8 fsub_9 fadd_4 fsub_10 fsub_11 fdiv_1
      fmul_1 fdiv_2 fadd_5 fsub_12 fsub_13 fadd_6 fsub_14 fsub_15
      fsub_16 fadd_7 fsub_17 fsub_18 fdiv_3 fmul_2 fdiv_4)

lemma round2_first_order:
  "round2 (fdiv (Fin (1401745384019067 / 281474976710656)) (Fin 4)) = Fin (5 / 4)"
  by (simp only: round2_def fdiv_1 fmul_1 fdiv_2 fdiv_3 fmul_2 fdiv_4 rint_1 rint_2)

lemma kahan_second_order:
  "kahan (Fin 0) (Fin 0)
      [Fin (5314247560297185 / 9007199254740992),
       Fin (3895613677675479 / 2251799813685248),
       Fin (4458563631096791 / 4503599627370496),
       Fin (940126422213591 / 562949953421312)]
     = Fin (5606981536076267 / 1125899906842624)"
  by (simp only: kahan.simps Let_def pyfloat.distinct if_False
      fsub_1 fadd_1 fsub_2 fsub_3 fadd_2 fsub_4 fsub_5 fsub_6
      fadd_3 fsub_7 fsub_8 fsub_9 fadd_4 fsub_10 fsub_11 fdiv_1
      fmul_1 fdiv_2 fadd_5 fsub_12 fsub_13 fadd_6 fsub_14 fsub_15
      fsub_16 fadd_7 fsub_17 fsub_18 fdiv_3 fmul_2 fdiv_4)

lemma round2_second_order:
  "round2 (fdiv (Fin (5606981536076267 / 1125899906842624)) (Fin 4))
     = Fin (5584463537939415 / 4503599627370496)"
  by (simp only: round2_def fdiv_1 fmul_1 fdiv_2 fdiv_3 fmul_2 fdiv_4 rint_1 rint_2)

lemma mean_four: "mean [a, b, c, d] = fdiv (kahan (Fin 0) (Fin 0) [a, b, c, d]) (Fin 4)"
proof -
  have "round_double (of_nat (length [a, b, c, d])) = Fin 4"
    using round_double_exact [of 4] by simp
  then show ?thesis by (simp only: mean_def list.distinct if_False)
qed

lemma promedio_one_month:
  "map Promedio (analizar_por_mes desv [(1, Fin a), (1, Fin b), (1, Fin c), (1, Fin d)])
     = [round2 (mean [Fin a, Fin b, Fin c, Fin d])]"
  by (simp add: analizar_por_mes_def grupo_def stats_of_def)

text \<open>
  C8, as the claim states it, fails: the prices 0.59, 0.99, 1.67 and 1.73 of one month
  have the mean 1.25 in this order and the mean 1.24 in the order 0.59, 1.73, 0.99, 1.67,
  for their sums in binary64 differ in the last place and the first is rounded up at
  the second decimal, the second down.
\<close>

theorem analizar_por_mes_order_counterexample:
  "mset [(1, round_double (59 / 100)), (1, round_double (99 / 100)),
         (1, round_double (167 / 100)), (1, round_double (173 / 100))]
     = mset [(1 :: nat, round_double (59 / 100)), (1, round_double (173 / 100)),
             (1, round_double (99 / 100)), (1, round_double (167 / 100))]
   \<and> map Promedio (analizar_por_mes (\<lambda>xs. NaN)
        [(1, round_double (59 / 100)), (1, round_double (99 / 100)),
         (1, round_double (167 / 100)), (1, round_double (173 / 100))])
       = [Fin (5 / 4)]
   \<and> map Promedio (analizar_por_mes (\<lambda>xs. NaN)
        [(1, round_double (59 / 100)), (1, round_double (173 / 100)),
         (1, round_double (99 / 100)), (1, round_double (167 / 100))])
       = [round_double (124 / 100)]
   \<and> Fin (5 / 4) \<noteq> round_double (124 / 100)"
proof (intro conjI)
  show "mset [(1, round_double (59 / 100)), (1, round_double (99 / 100)),
         (1, round_double (167 / 100)), (1, round_double (173 / 100))]
     = mset [(1 :: nat, round_double (59 / 100)), (1, round_double (173 / 100)),
             (1, round_double (99 / 100)), (1, round_double (167 / 100))]"
    by (simp add: add_mset_commute)
  show "map Promedio (analizar_por_mes (\<lambda>xs. NaN)
        [(1, round_double (59 / 100)), (1, round_double (99 / 100)),
         (1, round_double (167 / 100)), (1, round_double (173 / 100))])
       = [Fin (5 / 4)]"
    by (simp only: double_0_59 double_0_99 double_1_67 double_1_73 promedio_one_month
        mean_four kahan_first_order round2_first_order)
  show "map Promedio (analizar_por_mes (\<lambda>xs. NaN)
        [(1, round_double (59 / 100)), (1, round_double (173 / 100)),
         (1, round_double (99 / 100)), (1, round_double (167 / 100))])
       = [round_double (124 / 100)]"
    by (simp only: double_0_59 double_0_99 double_1_67 double_1_73 double_1_24
        promedio_one_month mean_four kahan_second_order round2_second_order)
  show "Fin (5 / 4) \<noteq> round_double (124 / 100)"
    unfolding double_1_24 by simp
qed

text \<open>
  C8, amended. Two record sequences with the same records, in any order, give tables
  of months with the same months and, for every month, the same count, median, minimum
  and maximum. The mean of a month is computed by adding its prices in the order of the
  records, with a rounding at every addition: it is the same for both sequences when
  the prices are whole numbers of a total below \<open>2^53\<close>, whose sums are exact, and the
  whole table is the same when the records of every month keep their order.
\<close>

theorem analizar_por_mes_permutation:
  assumes "mset df = mset df'"
  shows "map mes (analizar_por_mes desv df') = map mes (analizar_por_mes desv df)
       \<and> map Mes (analizar_por_mes desv df') = map Mes (analizar_por_mes desv df)
       \<and> map Registros (analizar_por_mes desv df') = map Registros (analizar_por_mes desv df)
       \<and> map Mediana (analizar_por_mes desv df') = map Mediana (analizar_por_mes desv df)
       \<and> map Minimo (analizar_por_mes desv df') = map Minimo (analizar_por_mes desv df)
       \<and> map Maximo (analizar_por_mes desv df') = map Maximo (analizar_por_mes desv df)
       \<and> (precios_enteros df \<longrightarrow>
            map Promedio (analizar_por_mes desv df') = map Promedio (analizar_por_mes desv df))
       \<and> ((\<forall>m. grupo df' m = grupo df m) \<longrightarrow>
            analizar_por_mes desv df' = analizar_por_mes desv df)"
proof -
  note ms = mset_eq_meses [OF assms]
  have g: "mset (grupo df m) = mset (grupo df' m)" for m using assms by (rule mset_eq_grupo)
  have "map mes (analizar_por_mes desv df') = map mes (analizar_por_mes desv df)"
    by (simp add: analizar_por_mes_def stats_of_def o_def ms del: set_map)
  moreover have "map Mes (analizar_por_mes desv df') = map Mes (analizar_por_mes desv df)"
    by (simp add: analizar_por_mes_def stats_of_def o_def ms del: set_map)
  moreover have "map Registros (analizar_por_mes desv df') = map Registros (analizar_por_mes desv df)"
    by (simp add: analizar_por_mes_def stats_of_def o_def ms mset_eq_length [OF g] del: set_map)
  moreover have "map Mediana (analizar_por_mes desv df') = map Mediana (analizar_por_mes desv df)"
    by (simp add: analizar_por_mes_def stats_of_def o_def ms mset_eq_median [OF g] del: set_map)
  moreover have "map Minimo (analizar_por_mes desv df') = map Minimo (analizar_por_mes desv df)"
    by (simp add: analizar_por_mes_def stats_of_def o_def ms mset_eq_minimo [OF g] del: set_map)
  moreover have "map Maximo (analizar_por_mes desv df') = map Maximo (analizar_por_mes desv df)"
    by (simp add: analizar_por_mes_def stats_of_def o_def ms mset_eq_maximo [OF g] del: set_map)
  moreover have "map Promedio (analizar_por_mes desv df') = map Promedio (analizar_por_mes desv df)"
    if "precios_enteros df"
    by (simp add: analizar_por_mes_def stats_of_def o_def ms
        mset_eq_mean_enteros [OF assms that] del: set_map)
  moreover have "analizar_por_mes desv df' = analizar_por_mes desv df"
    if "\<forall>m. grupo df' m = grupo df m"
    using that by (simp add: analizar_por_mes_def ms del: set_map)
  ultimately show ?thesis by blast
qed

theorem analizar_por_mes_permutation_witness:
  "mset [(3, Fin 100), (1, Fin 50), (3, Fin 120)] = mset [(1 :: nat, Fin 50), (3, Fin 120), (3, Fin 100)]
   \<and> precios_enteros [(3, Fin 100), (1, Fin 50), (3, Fin 120)]
   \<and> map Promedio (analizar_por_mes (\<lambda>xs. NaN) [(1, Fin 50), (3, Fin 120), (3, Fin 100)])
       = map Promedio (analizar_por_mes (\<lambda>xs. NaN) [(3, Fin 100), (1, Fin 50), (3, Fin 120)])
   \<and> map Mediana (analizar_por_mes (\<lambda>xs. NaN) [(1, Fin 50), (3, Fin 120), (3, Fin 100)])
       = map Mediana (analizar_por_mes (\<lambda>xs. NaN) [(3, Fin 100), (1, Fin 50), (3, Fin 120)])
   \<and> map Registros (analizar_por_mes (\<lambda>xs. NaN) [(1, Fin 50), (3, Fin 120), (3, Fin 100)])
       = map Registros (analizar_por_mes (\<lambda>xs. NaN) [(3, Fin 100), (1, Fin 50), (3, Fin 120)])"
proof -
  have h: "mset [(3, Fin 100), (1, Fin 50), (3, Fin 120)]
           = mset [(1 :: nat, Fin 50), (3, Fin 120), (3, Fin 100)]"
    by (simp add: add_mset_commute)
  have e: "precios_enteros [(3, Fin 100), (1, Fin 50), (3, Fin 120)]"
    by (simp add: precios_enteros_def)
  note t = analizar_por_mes_permutation [OF h, of "\<lambda>xs. NaN"]
  from t e have p: "map Promedio (analizar_por_mes (\<lambda>xs. NaN) [(1, Fin 50), (3, Fin 120), (3, Fin 100)])
       = map Promedio (analizar_por_mes (\<lambda>xs. NaN) [(3, Fin 100), (1, Fin 50), (3, Fin 120)])"
    by blast
  from t have m: "map Mediana (analizar_por_mes (\<lambda>xs. NaN) [(1, Fin 50), (3, Fin 120), (3, Fin 100)])
       = map Mediana (analizar_por_mes (\<lambda>xs. NaN) [(3, Fin 100), (1, Fin 50), (3, Fin 120)])"
    by blast
  from t have r: "map Registros (analizar_por_mes (\<lambda>xs. NaN) [(1, Fin 50), (3, Fin 120), (3, Fin 100)])
       = map Registros (analizar_por_mes (\<lambda>xs. NaN) [(3, Fin 100), (1, Fin 50), (3, Fin 120)])"
    by blast
  from h e p m r show ?thesis by (intro conjI)
qed

lemma insort_key_tie_order:
  fixes f :: "'a \<Rightarrow> real" and g :: "'a \<Rightarrow> nat"
  assumes "sorted_wrt (\<lambda>a b. f a < f b \<or> (f a = f b \<and> g a < g b)) ys"
    and "\<forall>y\<in>set ys. g x < g y"
  shows "sorted_wrt (\<lambda>a b. f a < f b \<or> (f a = f b \<and> g a < g b)) (insort_key f x ys)"
  using assms
proof (induction ys)
  case Nil
  then show ?case by simp
next
  case (Cons y ys)
  show ?case
  proof (cases "f x \<le> f y")
    case True
    have "f x < f z \<or> (f x = f z \<and> g x < g z)" if "z \<in> set (y # ys)" for z
    proof -
      have "f y \<le> f z" using that Cons.prems(1) by auto
      with True have "f x \<le> f z" by simp
      moreover have "g x < g z" using that Cons.prems(2) by auto
      ultimately show ?thesis by auto
    qed
    with True Cons.prems(1) show ?thesis by simp
  next
    case False
    then have "sorted_wrt (\<lambda>a b. f a < f b \<or> (f a = f b \<and> g a < g b)) (insort_key f x ys)"
      using Cons by simp
    moreover have "f y < f x" using False by simp
    ultimately show ?thesis using False Cons.prems(1) by (auto simp: set_insort_key)
  qed
qed

lemma sort_key_tie_order:
  fixes f :: "'a \<Rightarrow> real" and g :: "'a \<Rightarrow> nat"
  assumes "sorted_wrt (\<lambda>a b. g a < g b) t"
  shows "sorted_wrt (\<lambda>a b. f a < f b \<or> (f a = f b \<and> g a < g b)) (sort_key f t)"
  using assms
proof (induction t)
  case Nil
  then show ?case by simp
next
  case (Cons x xs)
  then show ?case by (simp add: insort_key_tie_order)
qed

lemma take_sorted_wrt:
  assumes "sorted_wrt R ys"
  shows "sorted_wrt R (take n ys) \<and> (\<forall>a\<in>set (take n ys). \<forall>b\<in>set ys - set (take n ys). R a b)"
proof -
  have "sorted_wrt R (take n ys @ drop n ys)" using assms by simp
  then have "sorted_wrt R (take n ys)" and "\<forall>a\<in>set (take n ys). \<forall>b\<in>set (drop n ys). R a b"
    unfolding sorted_wrt_append by blast+
  moreover have "set ys - set (take n ys) \<subseteq> set (drop n ys)"
    using set_append [of "take n ys" "drop n ys"] by auto
  ultimately show ?thesis by blast
qed

lemma sorted_cheaper:
  "sorted_wrt (<) (map mes t) \<Longrightarrow> sorted_wrt cheaper (sort_key Promedio t)"
  using sort_key_tie_order [of mes t Promedio] by (simp add: sorted_wrt_map cheaper_def [abs_def])

lemma sorted_dearer:
  "sorted_wrt (<) (map mes t) \<Longrightarrow> sorted_wrt dearer (sort_key (\<lambda>r. - Promedio r) t)"
  using sort_key_tie_order [of mes t "\<lambda>r. - Promedio r"]
  by (simp add: sorted_wrt_map dearer_def [abs_def] eq_commute)

text \<open>
  C9, as the claim states it, fails on a table of fewer than three months: the selection
  cannot have three rows.
\<close>

theorem mejores_meses_three_counterexample:
  "length (fst (identificar_mejores_meses [fila_mes 1 10, fila_mes 2 20])) = 2
   \<and> length (snd (identificar_mejores_meses [fila_mes 1 10, fila_mes 2 20])) = 2"
  by (simp add: identificar_mejores_meses_def nsmallest_def nlargest_def)

text \<open>
  C9, amended. For every table of months in ascending order of the month (as
  \<open>analizar_por_mes\<close> lists them), the months to buy are the three rows of lowest mean
  price, or all rows when there are fewer than three, and the months to sell the three
  rows of highest mean price, or all rows when there are fewer; of two months of equal
  mean price the one of smaller month index is preferred: every selected row goes
  before every row left out, and the selected rows are listed in that order.
\<close>

theorem mejores_meses_selection:
  assumes "sorted_wrt (<) (map mes t)"
  shows "length (fst (identificar_mejores_meses t)) = min 3 (length t)
       \<and> length (snd (identificar_mejores_meses t)) = min 3 (length t)
       \<and> set (fst (identificar_mejores_meses t)) \<subseteq> set t
       \<and> set (snd (identificar_mejores_meses t)) \<subseteq> set t
       \<and> distinct (fst (identificar_mejores_meses t))
       \<and> distinct (snd (identificar_mejores_meses t))
       \<and> (\<forall>a\<in>set (fst (identificar_mejores_meses t)).
            \<forall>b\<in>set t - set (fst (identificar_mejores_meses t)). cheaper a b)
       \<and> (\<forall>a\<in>set (snd (identificar_mejores_meses t)).
            \<forall>b\<in>set t - set (snd (identificar_mejores_meses t)). dearer a b)
       \<and> sorted_wrt cheaper (fst (identificar_mejores_meses t))
       \<and> sorted_wrt dearer (snd (identificar_mejores_meses t))"
proof -
  have "distinct (map mes t)" using assms by (simp add: strict_sorted_iff)
  then have d: "distinct t" by (simp add: distinct_map)
  have c: "fst (identificar_mejores_meses t) = take 3 (sort_key Promedio t)"
    and v: "snd (identificar_mejores_meses t) = take 3 (sort_key (\<lambda>r. - Promedio r) t)"
    by (simp_all add: identificar_mejores_meses_def nsmallest_def nlargest_def)
  have sc: "set (take 3 (sort_key Promedio t)) \<subseteq> set t"
    using set_take_subset [of 3 "sort_key Promedio t"] by simp
  have sv: "set (take 3 (sort_key (\<lambda>r. - Promedio r) t)) \<subseteq> set t"
    using set_take_subset [of 3 "sort_key (\<lambda>r. - Promedio r) t"] by simp
  have dc: "distinct (take 3 (sort_key Promedio t))" using d by simp
  have dv: "distinct (take 3 (sort_key (\<lambda>r. - Promedio r) t))" using d by simp
  show ?thesis
    unfolding c v
    using take_sorted_wrt [OF sorted_cheaper [OF assms], of 3]
      take_sorted_wrt [OF sorted_dearer [OF assms], of 3] sc sv dc dv
    by simp
qed

theorem mejores_meses_selection_witness:
  "sorted_wrt (<) (map mes [fila_mes 1 10, fila_mes 2 10, fila_mes 3 5, fila_mes 4 10])
   \<and> fst (identificar_mejores_meses [fila_mes 1 10, fila_mes 2 10, fila_mes 3 5, fila_mes 4 10])
       = [fila_mes 3 5, fila_mes 1 10, fila_mes 2 10]
   \<and> snd (identificar_mejores_meses [fila_mes 1 10, fila_mes 2 10, fila_mes 3 5, fila_mes 4 10])
       = [fila_mes 1 10, fila_mes 2 10, fila_mes 4 10]
   \<and> cheaper (fila_mes 2 10) (fila_mes 4 10)
   \<and> dearer (fila_mes 4 10) (fila_mes 3 5)"
proof -
  let ?t = "[fila_mes 1 10, fila_mes 2 10, fila_mes 3 5, fila_mes 4 10]"
  have h: "sorted_wrt (<) (map mes ?t)" by (simp add: fila_mes_def)
  have c: "fst (identificar_mejores_meses ?t) = [fila_mes 3 5, fila_mes 1 10, fila_mes 2 10]"
    by (simp add: identificar_mejores_meses_def nsmallest_def nlargest_def fila_mes_def)
  have v: "snd (identificar_mejores_meses ?t) = [fila_mes 1 10, fila_mes 2 10, fila_mes 4 10]"
    by (simp add: identificar_mejores_meses_def nsmallest_def nlargest_def fila_mes_def)
  note sel = mejores_meses_selection [OF h, unfolded c v]
  from sel have
    "\<forall>a\<in>set [fila_mes 3 5, fila_mes 1 10, fila_mes 2 10].
        \<forall>b\<in>set ?t - set [fila_mes 3 5, fila_mes 1 10, fila_mes 2 10]. cheaper a b"
    by (elim conjE)
  moreover have "fila_mes 4 10 \<in> set ?t - set [fila_mes 3 5, fila_mes 1 10, fila_mes 2 10]"
    by (simp add: fila_mes_def)
  ultimately have ch: "cheaper (fila_mes 2 10) (fila_mes 4 10)" by simp
  from sel have
    "\<forall>a\<in>set [fila_mes 1 10, fila_mes 2 10, fila_mes 4 10].
        \<forall>b\<in>set ?t - set [fila_mes 1 10, fila_mes 2 10, fila_mes 4 10]. dearer a b"
    by (elim conjE)
  moreover have "fila_mes 3 5 \<in> set ?t - set [fila_mes 1 10, fila_mes 2 10, fila_mes 4 10]"
    by (simp add: fila_mes_def)
  ultimately have de: "dearer (fila_mes 4 10) (fila_mes 3 5)" by simp
  from h c v ch de show ?thesis by (intro conjI)
qed

section \<open>Facts about the date resolver\<close>

lemma try_down_cong:
  "(\<And>i. i \<le> n \<Longrightarrow> k i = k' i) \<Longrightarrow> try_down lo n k = try_down lo n k'"
  by (induction n) (auto split: option.splits)

lemma rx_match_Grp_Cls:
  "rx_match (Grp (Cls p lo hi)) s g k =
     (let avail = length (takeWhile p s);
          n = (case hi of None \<Rightarrow> avail | Some h \<Rightarrow> min h avail)
      in try_down lo n (\<lambda>i. k (drop i s) (g @ [take i s])))"
proof -
  define n where "n = (case hi of None \<Rightarrow> length (takeWhile p s) | Some h \<Rightarrow> min h (length (takeWhile p s)))"
  have "n \<le> length (takeWhile p s)" by (simp add: n_def split: option.splits)
  then have n: "n \<le> length s" using length_takeWhile_le [of p s] by simp
  have "try_down lo n (\<lambda>i. k (drop i s) (g @ [take (length s - length (drop i s)) s]))
        = try_down lo n (\<lambda>i. k (drop i s) (g @ [take i s]))"
    using n by (intro try_down_cong) simp
  then show ?thesis by (simp add: Let_def n_def)
qed

lemma is_digit_not_space: "is_digit c \<Longrightarrow> \<not> is_space c"
  by (auto simp: is_digit_def is_space_def)

lemma char_class_eval:
  "\<not> is_digit CHR ''-''" "\<not> is_digit CHR '' ''" "\<not> is_digit CHR ''a''" "\<not> is_digit CHR ''D''"
  "is_space CHR '' ''" "\<not> is_space CHR ''-''" "\<not> is_space CHR ''a''" "\<not> is_space CHR ''D''"
  by (simp_all add: is_digit_def is_space_def ord_def)

lemma takeWhile_suffix: "ext = [] \<or> \<not> is_digit (hd ext) \<Longrightarrow> takeWhile is_digit ext = []"
  by (cases ext) auto

lemma filename_match:
  assumes "is_digit a" "is_digit b" "is_digit c" "is_digit d" "is_digit e" "is_digit f"
    and "is_digit g" "is_digit h" "is_digit i" "is_digit j" "is_digit k" "is_digit l"
    and "ext = [] \<or> \<not> is_digit (hd ext)"
  shows "re_search filename_rx
           (''Del '' @ [a, b] @ ''-'' @ [c, d] @ ''-'' @ [e, f] @ '' al ''
              @ [g, h] @ ''-'' @ [i, j] @ ''-'' @ [k, l] @ ext)
         = Some [[a, b], [c, d], [e, f], [g, h], [i, j], [k, l]]"
  using assms
  by (simp add: filename_rx_def rx_match_Grp_Cls char_class_eval is_digit_not_space
      takeWhile_suffix eval_nat_numeral Let_def)

lemma try_down_all_None: "(\<And>i. i \<le> n \<Longrightarrow> k i = None) \<Longrightarrow> try_down lo n k = None"
  by (induction n) auto

text \<open>The part of the file name pattern from the first group on.\<close>

lemma filename_rx_split:
  "\<exists>X. filename_rx = Seq (Opt (Alt (Lit ''Del'') (Lit ''del'')))
                        (Seq (Cls is_space 0 None) (Seq (Grp (Cls is_digit 1 (Some 2))) X))"
  by (simp add: filename_rx_def)

lemma first_group_fails:
  "y = [] \<or> \<not> is_digit (hd y) \<Longrightarrow> rx_match (Seq (Grp (Cls is_digit 1 (Some 2))) X) y g k = None"
  by (cases y) (simp_all add: rx_match_Grp_Cls)

lemma blanks_then_group_fails:
  assumes "dropWhile is_space y = [] \<or> \<not> is_digit (hd (dropWhile is_space y))"
  shows "rx_match (Seq (Cls is_space 0 None) (Seq (Grp (Cls is_digit 1 (Some 2))) X)) y g k = None"
proof -
  have *: "drop i y = [] \<or> \<not> is_digit (hd (drop i y))" if "i \<le> length (takeWhile is_space y)" for i
  proof (cases "i = length (takeWhile is_space y)")
    case True
    then have "drop i y = dropWhile is_space y" by (simp add: dropWhile_eq_drop)
    with assms show ?thesis by simp
  next
    case False
    with that have lt: "i < length (takeWhile is_space y)" by simp
    then have "i < length y" using length_takeWhile_le [of is_space y] by simp
    then have "hd (drop i y) = y ! i" by (simp add: hd_drop_conv_nth)
    moreover have "is_space (y ! i)" using lt by (metis nth_length_takeWhile takeWhile_nth nth_mem set_takeWhileD)
    ultimately show ?thesis using is_digit_not_space by auto
  qed
  show ?thesis
    apply (subst rx_match.simps(3))
    apply (subst rx_match.simps(2))
    apply (simp only: Let_def option.case)
    apply (rule try_down_all_None)
    apply (rule first_group_fails)
    apply (erule *)
    done
qed

lemma first_nonblank_no_digit:
  assumes "list_all (\<lambda>c. \<not> is_digit c) q" and "\<not> is_digit r" and "\<not> is_space r"
  shows "dropWhile is_space (q @ r # rs) = [] \<or> \<not> is_digit (hd (dropWhile is_space (q @ r # rs)))"
  using assms by (induction q) auto

lemma no_match_in_prefix:
  assumes q: "list_all (\<lambda>c. \<not> is_digit c) (c # q)"
  shows "rx_match filename_rx ((c # q) @ ''Del '' @ t) [] k = None"
proof -
  obtain X where X: "filename_rx = Seq (Opt (Alt (Lit ''Del'') (Lit ''del'')))
                        (Seq (Cls is_space 0 None) (Seq (Grp (Cls is_digit 1 (Some 2))) X))"
    using filename_rx_split by blast
  define Z where "Z = Seq (Cls is_space 0 None) (Seq (Grp (Cls is_digit 1 (Some 2))) X)"
  have here: "rx_match Z ((c # q) @ ''Del '' @ t) g k = None" for g
    unfolding Z_def
    by (rule blanks_then_group_fails)
      (use first_nonblank_no_digit [OF q, of "CHR ''D''" "''el '' @ t"] in \<open>simp add: char_class_eval\<close>)
  have after: "rx_match Z (drop 3 ((c # q) @ ''Del '' @ t)) g k = None" for g
  proof -
    have dq: "list_all (\<lambda>c. \<not> is_digit c) (drop 3 (c # q))"
      using q by (auto simp: list_all_iff dest: in_set_dropD)
    consider "length (c # q) = 1" | "length (c # q) = 2" | "3 \<le> length (c # q)"
      by (cases q; cases "tl q") auto
    then obtain r rs where "drop 3 ((c # q) @ ''Del '' @ t) = drop 3 (c # q) @ r # rs"
      and "\<not> is_digit r" and "\<not> is_space r"
    proof cases
      case 1
      then have "drop 3 ((c # q) @ ''Del '' @ t) = drop 3 (c # q) @ CHR ''l'' # '' '' @ t" by simp
      then show ?thesis using that [of "CHR ''l''"] by (simp add: is_digit_def is_space_def ord_def)
    next
      case 2
      then have "drop 3 ((c # q) @ ''Del '' @ t) = drop 3 (c # q) @ CHR ''e'' # ''l '' @ t"
        by (cases q) simp_all
      then show ?thesis using that [of "CHR ''e''"] by (simp add: is_digit_def is_space_def ord_def)
    next
      case 3
      then have "drop 3 ((c # q) @ ''Del '' @ t) = drop 3 (c # q) @ CHR ''D'' # ''el '' @ t"
        by simp
      then show ?thesis using that [of "CHR ''D''"] by (simp add: is_digit_def is_space_def ord_def)
    qed
    then show ?thesis
      unfolding Z_def using first_nonblank_no_digit [OF dq, of r rs]
      by (intro blanks_then_group_fails) simp
  qed
  show ?thesis
    unfolding X Z_def [symmetric]
    by (simp add: here after numeral_3_eq_3 [symmetric] del: append.simps drop_append)
qed

lemma search_skips_prefix:
  "list_all (\<lambda>c. \<not> is_digit c) pre \<Longrightarrow>
     re_search filename_rx (pre @ ''Del '' @ t) = re_search filename_rx (''Del '' @ t)"
proof (induction pre)
  case Nil
  show ?case by simp
next
  case (Cons c q)
  have "rx_match filename_rx ((c # q) @ ''Del '' @ t) [] (\<lambda>s g. Some g) = None"
    using Cons.prems by (rule no_match_in_prefix)
  then have "re_search filename_rx ((c # q) @ ''Del '' @ t) = re_search filename_rx (q @ ''Del '' @ t)"
    by simp
  with Cons show ?case by simp
qed

lemma filename_search:
  assumes "is_digit a" "is_digit b" "is_digit c" "is_digit d" "is_digit e" "is_digit f"
    and "is_digit g" "is_digit h" "is_digit i" "is_digit j" "is_digit k" "is_digit l"
    and "ext = [] \<or> \<not> is_digit (hd ext)"
    and "list_all (\<lambda>c. \<not> is_digit c) pre"
  shows "re_search filename_rx
           (pre @ ''Del '' @ [a, b] @ ''-'' @ [c, d] @ ''-'' @ [e, f] @ '' al ''
              @ [g, h] @ ''-'' @ [i, j] @ ''-'' @ [k, l] @ ext)
         = Some [[a, b], [c, d], [e, f], [g, h], [i, j], [k, l]]"
  unfolding search_skips_prefix [OF assms(14)] by (rule filename_match [OF assms(1-13)])

lemma two_digit_text:
  "is_digit a \<Longrightarrow> is_digit b \<Longrightarrow> all_digits [a, b] \<and> dec_val [a, b] = two_digits a b"
  by (simp add: all_digits_def dec_val_def two_digits_def)

lemma year_text:
  "is_digit e \<Longrightarrow> is_digit f \<Longrightarrow>
     all_digits (''20'' @ [e, f]) \<and> dec_val (''20'' @ [e, f]) = 2000 + two_digits e f"
proof -
  have "digit_val CHR ''2'' = 2" "digit_val CHR ''0'' = 0" "is_digit CHR ''2''" "is_digit CHR ''0''"
    by (simp_all add: digit_val_def is_digit_def ord_def)
  then show "is_digit e \<Longrightarrow> is_digit f \<Longrightarrow> ?thesis"
    by (simp add: all_digits_def dec_val_def two_digits_def)
qed

lemma days_in_month_le: "days_in_month y m \<le> 31"
  by (simp add: days_in_month_def)

lemma strptime_two_digit_year:
  assumes "is_digit a" "is_digit b" "is_digit c" "is_digit d" "is_digit e" "is_digit f"
  shows "strptime_dmY [a, b] [c, d] (expand_year [e, f]) =
           (if valid_date (2000 + two_digits e f) (two_digits c d) (two_digits a b)
            then Some \<lparr>year = 2000 + two_digits e f, month = two_digits c d, day = two_digits a b\<rparr>
            else None)"
proof -
  have y: "expand_year [e, f] = ''20'' @ [e, f]" by (simp add: expand_year_def)
  have "two_digits a b \<le> days_in_month (2000 + two_digits e f) (two_digits c d)
        \<Longrightarrow> two_digits a b \<le> 31"
    using days_in_month_le [of "2000 + two_digits e f" "two_digits c d"] by simp
  then show ?thesis
    unfolding y strptime_dmY_def valid_date_def
    using two_digit_text [OF assms(1,2)] two_digit_text [OF assms(3,4)] year_text [OF assms(5,6)]
    by auto
qed

lemma strptime_dmY_valid:
  "strptime_dmY d m y = Some x \<Longrightarrow> valid_date (year x) (month x) (day x)"
  by (auto simp: strptime_dmY_def valid_date_def split: if_splits)

lemma extract_date_from_filename_cases:
  "extract_date_from_filename fname = (None, None)
   \<or> (\<exists>d1 d2. extract_date_from_filename fname = (Some d1, Some d2)
         \<and> valid_date (year d1) (month d1) (day d1) \<and> valid_date (year d2) (month d2) (day d2))"
  by (auto simp: extract_date_from_filename_def dest: strptime_dmY_valid
      split: option.splits list.splits)

text \<open>
  C6. A file name that holds \<open>Del DD-MM-YY al DD-MM-YY\<close>, after any text without digits
  and before anything that does not start with a digit (such as \<open>.pdf\<close>), resolves to the
  two dates read as day, month and year 2000 + YY when both are dates of the calendar,
  and to no date when one of them is not. On every file name the resolver returns,
  without raising, either no date or two dates of the calendar.
\<close>

theorem extract_date_from_filename_del_al:
  assumes "is_digit a" "is_digit b" "is_digit c" "is_digit d" "is_digit e" "is_digit f"
    and "is_digit g" "is_digit h" "is_digit i" "is_digit j" "is_digit k" "is_digit l"
    and "ext = [] \<or> \<not> is_digit (hd ext)"
    and "list_all (\<lambda>c. \<not> is_digit c) pre"
  shows "extract_date_from_filename
           (pre @ ''Del '' @ [a, b] @ ''-'' @ [c, d] @ ''-'' @ [e, f] @ '' al ''
              @ [g, h] @ ''-'' @ [i, j] @ ''-'' @ [k, l] @ ext)
         = (if valid_date (2000 + two_digits e f) (two_digits c d) (two_digits a b)
               \<and> valid_date (2000 + two_digits k l) (two_digits i j) (two_digits g h)
            then (Some \<lparr>year = 2000 + two_digits e f, month = two_digits c d, day = two_digits a b\<rparr>,
                  Some \<lparr>year = 2000 + two_digits k l, month = two_digits i j, day = two_digits g h\<rparr>)
            else (None, None))
       \<and> (extract_date_from_filename fname = (None, None)
          \<or> (\<exists>d1 d2. extract_date_from_filename fname = (Some d1, Some d2)
                \<and> valid_date (year d1) (month d1) (day d1)
                \<and> valid_date (year d2) (month d2) (day d2)))"
proof
  show "extract_date_from_filename
           (pre @ ''Del '' @ [a, b] @ ''-'' @ [c, d] @ ''-'' @ [e, f] @ '' al ''
              @ [g, h] @ ''-'' @ [i, j] @ ''-'' @ [k, l] @ ext)
         = (if valid_date (2000 + two_digits e f) (two_digits c d) (two_digits a b)
               \<and> valid_date (2000 + two_digits k l) (two_digits i j) (two_digits g h)
            then (Some \<lparr>year = 2000 + two_digits e f, month = two_digits c d, day = two_digits a b\<rparr>,
                  Some \<lparr>year = 2000 + two_digits k l, month = two_digits i j, day = two_digits g h\<rparr>)
            else (None, None))"
    unfolding extract_date_from_filename_def filename_search [OF assms]
    by (simp add: strptime_two_digit_year assms)
  show "extract_date_from_filename fname = (None, None)
          \<or> (\<exists>d1 d2. extract_date_from_filename fname = (Some d1, Some d2)
                \<and> valid_date (year d1) (month d1) (day d1)
                \<and> valid_date (year d2) (month d2) (day d2))"
    by (rule extract_date_from_filename_cases)
qed

theorem extract_date_from_filename_del_al_witness:
  "extract_date_from_filename ''Del 01-03-24 al 07-03-24''
     = (Some \<lparr>year = 2024, month = 3, day = 1\<rparr>, Some \<lparr>year = 2024, month = 3, day = 7\<rparr>)
   \<and> extract_date_from_filename ''Precios Del 31-02-24 al 07-03-24.pdf'' = (None, None)"
proof -
  have d: "is_digit CHR ''0''" "is_digit CHR ''1''" "is_digit CHR ''2''" "is_digit CHR ''3''"
    "is_digit CHR ''4''" "is_digit CHR ''7''"
    by (simp_all add: is_digit_def ord_def)
  have e1: "[] = [] \<or> \<not> is_digit (hd [])" by simp
  have e2: "''.pdf'' = [] \<or> \<not> is_digit (hd ''.pdf'')" by (simp add: is_digit_def ord_def)
  have p1: "list_all (\<lambda>c. \<not> is_digit c) []" by simp
  have p2: "list_all (\<lambda>c. \<not> is_digit c) ''Precios ''" by (simp add: is_digit_def ord_def)
  have v: "two_digits CHR ''0'' CHR ''1'' = 1" "two_digits CHR ''0'' CHR ''3'' = 3"
    "two_digits CHR ''2'' CHR ''4'' = 24" "two_digits CHR ''0'' CHR ''7'' = 7"
    "two_digits CHR ''3'' CHR ''1'' = 31" "two_digits CHR ''0'' CHR ''2'' = 2"
    by (simp_all add: two_digits_def digit_val_def ord_def)
  show ?thesis
    using extract_date_from_filename_del_al
        [OF d(1) d(2) d(1) d(4) d(3) d(5) d(1) d(6) d(1) d(4) d(3) d(5) e1 p1, THEN conjunct1]
      extract_date_from_filename_del_al
        [OF d(4) d(2) d(1) d(3) d(3) d(5) d(1) d(6) d(1) d(4) d(3) d(5) e2 p2, THEN conjunct1]
    by (simp add: v valid_date_def days_in_month_def is_leap_def)
qed


end
